theory Spec2Isabelle
  imports Main
begin

section \<open>The address library the engine calls (netaddr)\<close>

text \<open>
  The routers in \<^verbatim>\<open>engine/app/routers/space.py\<close> do all their address arithmetic through
  the third-party package netaddr (\<^verbatim>\<open>IPNetwork\<close>, \<^verbatim>\<open>IPSet\<close>). The package is not part of
  the repository, so it is modelled here by what it computes.

  An \<^verbatim>\<open>IPNetwork\<close> is an IPv4 address value together with a prefix length; the address may
  carry host bits. The CIDR strings stored in the aggregate (\<^verbatim>\<open>'10.0.0.0/24'\<close>) are
  represented by the network they parse to. Blocks are IPv4 ranges; a prefix of another
  address family is never within a block, so the routers' filters drop it before any set
  is built, and it is not represented.
\<close>

datatype ipnetwork = IPNetwork (net_value: nat) (prefixlen: nat)

definition wf_net :: "ipnetwork \<Rightarrow> bool" where
  "wf_net n = (prefixlen n \<le> 32 \<and> net_value n < 2 ^ 32)"

definition ip :: "nat \<Rightarrow> nat \<Rightarrow> nat \<Rightarrow> nat \<Rightarrow> nat" where
  \<comment> \<open>dotted quad \<open>a.b.c.d\<close>\<close>
  "ip a b c d = ((a * 256 + b) * 256 + c) * 256 + d"

definition net_first :: "ipnetwork \<Rightarrow> nat" where
  \<comment> \<open>\<^verbatim>\<open>IPNetwork.first\<close>: the address with the host bits cleared\<close>
  "net_first n = (net_value n div 2 ^ (32 - prefixlen n)) * 2 ^ (32 - prefixlen n)"

definition net_size :: "ipnetwork \<Rightarrow> nat" where
  \<comment> \<open>\<^verbatim>\<open>IPNetwork.size\<close>\<close>
  "net_size n = 2 ^ (32 - prefixlen n)"

definition net_last :: "ipnetwork \<Rightarrow> nat" where
  \<comment> \<open>\<^verbatim>\<open>IPNetwork.last\<close>\<close>
  "net_last n = net_first n + net_size n - 1"

definition network_in :: "ipnetwork \<Rightarrow> ipnetwork \<Rightarrow> bool" where
  \<comment> \<open>\<^verbatim>\<open>other in self\<close> (\<^verbatim>\<open>IPNetwork.__contains__\<close>): both values shifted right by the
      host width of \<open>self\<close> agree, and \<open>self\<close> has the shorter prefix\<close>
  "network_in other self =
     (let shiftwidth = 32 - prefixlen self in
        net_value self div 2 ^ shiftwidth = net_value other div 2 ^ shiftwidth
        \<and> prefixlen self \<le> prefixlen other)"

definition addrs :: "ipnetwork \<Rightarrow> nat set" where
  \<comment> \<open>the IPv4 addresses of a network: those that agree with it on the network bits\<close>
  "addrs n = {x. x < 2 ^ 32 \<and> x div 2 ^ (32 - prefixlen n) = net_value n div 2 ^ (32 - prefixlen n)}"

text \<open>
  An \<^verbatim>\<open>IPSet\<close> is a set of addresses that netaddr always keeps compacted: as the shortest
  list of CIDR blocks that covers it (\<^verbatim>\<open>cidr_merge\<close>), which \<^verbatim>\<open>iter_cidrs\<close> returns sorted
  by address. The model keeps the compacted set as a binary prefix tree over the 32 address
  bits, most significant bit first: a leaf \<open>Full\<close> at depth \<open>d\<close> is one CIDR block of prefix
  length \<open>d\<close>, \<open>Empty\<close> is a range with no address of the set, and the constructor \<open>node\<close>
  merges two full halves into one block, as compaction does. The leaves read from left to
  right are the blocks \<^verbatim>\<open>iter_cidrs\<close> lists.
\<close>

datatype ipset = Empty | Full | Node ipset ipset

fun node :: "ipset \<Rightarrow> ipset \<Rightarrow> ipset" where
  "node Full Full = Full"
| "node Empty Empty = Empty"
| "node l r = Node l r"

fun single :: "nat \<Rightarrow> nat \<Rightarrow> nat \<Rightarrow> ipset" where
  \<comment> \<open>the block of the first \<open>p\<close> of the lowest \<open>k\<close> bits of \<open>a\<close>\<close>
  "single 0 k a = Full"
| "single (Suc p) k a =
     (if bit a (k - 1) then Node Empty (single p (k - 1) a)
      else Node (single p (k - 1) a) Empty)"

definition cidr_set :: "ipnetwork \<Rightarrow> ipset" where
  \<comment> \<open>\<^verbatim>\<open>IPSet([cidr])\<close> of one network: its host bits play no part\<close>
  "cidr_set n = single (prefixlen n) 32 (net_value n)"

fun ipset_or :: "ipset \<Rightarrow> ipset \<Rightarrow> ipset" where
  "ipset_or Empty t = t"
| "ipset_or s Empty = s"
| "ipset_or Full t = Full"
| "ipset_or s Full = Full"
| "ipset_or (Node l1 r1) (Node l2 r2) = node (ipset_or l1 l2) (ipset_or r1 r2)"

fun ipset_and :: "ipset \<Rightarrow> ipset \<Rightarrow> ipset" where
  "ipset_and Empty t = Empty"
| "ipset_and s Empty = Empty"
| "ipset_and Full t = t"
| "ipset_and s Full = s"
| "ipset_and (Node l1 r1) (Node l2 r2) = node (ipset_and l1 l2) (ipset_and r1 r2)"

fun ipset_xor :: "ipset \<Rightarrow> ipset \<Rightarrow> ipset" where
  "ipset_xor Empty t = t"
| "ipset_xor s Empty = s"
| "ipset_xor Full Full = Empty"
| "ipset_xor Full (Node l r) = node (ipset_xor Full l) (ipset_xor Full r)"
| "ipset_xor (Node l r) Full = node (ipset_xor l Full) (ipset_xor r Full)"
| "ipset_xor (Node l1 r1) (Node l2 r2) = node (ipset_xor l1 l2) (ipset_xor r1 r2)"

definition IPSet :: "ipnetwork list \<Rightarrow> ipset" where
  \<comment> \<open>\<^verbatim>\<open>IPSet(iterable)\<close>: the merged union of the networks\<close>
  "IPSet ns = foldr (\<lambda>n s. ipset_or (cidr_set n) s) ns Empty"

definition ipset_bool :: "ipset \<Rightarrow> bool" where
  \<comment> \<open>\<^verbatim>\<open>bool(ipset)\<close>: the set has at least one address\<close>
  "ipset_bool s = (s \<noteq> Empty)"

fun iter_cidrs_at :: "ipset \<Rightarrow> nat \<Rightarrow> nat \<Rightarrow> ipnetwork list" where
  \<comment> \<open>the blocks of a subtree that spans the \<open>2 ^ k\<close> addresses from \<open>b\<close>\<close>
  "iter_cidrs_at Empty k b = []"
| "iter_cidrs_at Full k b = [IPNetwork b (32 - k)]"
| "iter_cidrs_at (Node l r) k b =
     iter_cidrs_at l (k - 1) b @ iter_cidrs_at r (k - 1) (b + 2 ^ (k - 1))"

definition iter_cidrs :: "ipset \<Rightarrow> ipnetwork list" where
  \<comment> \<open>\<^verbatim>\<open>IPSet.iter_cidrs()\<close>: the compacted blocks in ascending address order\<close>
  "iter_cidrs s = iter_cidrs_at s 32 0"

text \<open>Membership of an address in a prefix tree of \<open>k\<close> address bits, and the address set
  of an \<^verbatim>\<open>IPSet\<close>; both are used in statements only.\<close>

fun isin :: "ipset \<Rightarrow> nat \<Rightarrow> nat \<Rightarrow> bool" where
  "isin Empty k x = False"
| "isin Full k x = True"
| "isin (Node l r) k x = (if bit x (k - 1) then isin r (k - 1) x else isin l (k - 1) x)"

definition ipset_addrs :: "ipset \<Rightarrow> nat set" where
  "ipset_addrs s = {x. x < 2 ^ 32 \<and> isin s 32 x}"

fun height :: "ipset \<Rightarrow> nat" where
  "height Empty = 0"
| "height Full = 0"
| "height (Node l r) = Suc (max (height l) (height r))"

text \<open>Exceptions are values. \<open>HTTPException\<close> carries the status code and the detail the
  router raises; the others are the Python and netaddr exceptions that can escape a
  router function.\<close>

datatype error =
    HTTPException nat string
  | ValueError
  | TypeError
  | IndexError
  | AddrFormatError

definition subnet :: "ipnetwork \<Rightarrow> int \<Rightarrow> error + ipnetwork list" where
  \<comment> \<open>\<^verbatim>\<open>list(self.subnet(prefixlen))\<close>: nothing when the requested prefix is shorter than
      the network's; otherwise all subnets of that prefix length in ascending order.
      A prefix length beyond 32 makes the constructor of the first subnet raise.\<close>
  "subnet n plen =
     (if \<not> int (prefixlen n) \<le> plen then Inr []
      else if 32 < plen then Inl AddrFormatError
      else Inr (map (\<lambda>i. IPNetwork (net_first n + 2 ^ (32 - nat plen) * i) (nat plen))
                  [0 ..< 2 ^ (32 - prefixlen n) div 2 ^ (32 - nat plen)]))"

section \<open>The aggregate and its store\<close>

text \<open>
  A space document embeds its blocks; a block embeds references to virtual networks and its
  reservations, as the dictionaries of \<^verbatim>\<open>space.py\<close> do. Field names are the source's keys,
  prefixed where two records share a key.
\<close>

record reservation =
  resv_id :: string
  resv_cidr :: ipnetwork
  userId :: string
  createdOn :: nat
  status :: string

record vnet =
  vnet_id :: string
  active :: bool

record block =
  block_name :: string
  block_cidr :: ipnetwork
  vnets :: "vnet list"
  resv :: "reservation list"

record space =
  space_id :: string
  space_name :: string
  space_desc :: string
  blocks :: "block list"

text \<open>An entry of \<^verbatim>\<open>vnet_list\<close>, the answer of the external network directory
  (\<^verbatim>\<open>arg_query\<close>, \<^verbatim>\<open>vnet_fixup\<close>): a network id with its address prefixes.\<close>

record vnet_info =
  vi_id :: string
  prefixes :: "ipnetwork list"

text \<open>The request bodies (\<^verbatim>\<open>SpaceReq\<close>, \<^verbatim>\<open>BlockReq\<close>, \<^verbatim>\<open>BlockCIDRReq\<close>, \<^verbatim>\<open>SpaceCIDRReq\<close>)
  and one operation of a JSON patch.\<close>

record space_req =
  sreq_name :: string
  sreq_desc :: string

record block_req =
  breq_name :: string
  breq_cidr :: ipnetwork

record block_cidr_req =
  req_size :: int
  reverse_search :: bool
  smallest_cidr :: bool

record space_cidr_req = block_cidr_req +
  req_blocks :: "string list"

record patch_item =
  patch_op :: string
  patch_path :: string
  patch_value :: string

text \<open>
  \<^verbatim>\<open>str.lower()\<close> maps every cased letter of Unicode by a table of the Python runtime.
  The routers and the store's name query take this case mapping as their first parameter
  \<open>lower\<close> (the \<^verbatim>\<open>LOWER\<close> of the query is taken to be the same mapping), and every
  general theorem holds for whatever function it is. The examples are run with
  \<open>ascii_lower\<close>, which is \<^verbatim>\<open>str.lower()\<close> on the ASCII names they use.
\<close>

definition lower_char :: "char \<Rightarrow> char" where
  "lower_char c =
     (case map_of (zip ''ABCDEFGHIJKLMNOPQRSTUVWXYZ'' ''abcdefghijklmnopqrstuvwxyz'') c of
        Some d \<Rightarrow> d
      | None \<Rightarrow> c)"

definition ascii_lower :: "string \<Rightarrow> string" where
  \<comment> \<open>\<^verbatim>\<open>str.lower()\<close> restricted to ASCII text\<close>
  "ascii_lower s = map lower_char s"

type_synonym store = "space list"

definition cosmos_query_spaces :: "store \<Rightarrow> space list" where
  \<comment> \<open>Modelled from the spec: the helper \<^verbatim>\<open>cosmos_query\<close> of \<^verbatim>\<open>app/routers/common/helper.py\<close>,
      which is not among the sources, for the query
      \<^verbatim>\<open>SELECT * FROM c WHERE c.type = 'space'\<close>: every space document of the tenant.\<close>
  "cosmos_query_spaces st = st"

definition cosmos_query_space :: "(string \<Rightarrow> string) \<Rightarrow> string \<Rightarrow> store \<Rightarrow> space list" where
  \<comment> \<open>Modelled from the spec: \<^verbatim>\<open>cosmos_query\<close> (\<open>FetchByName\<close>) for the query with
      \<^verbatim>\<open>AND LOWER(c.name) = LOWER('{}')\<close>: the tenant's documents of that name.\<close>
  "cosmos_query_space lower name st = filter (\<lambda>s. lower (space_name s) = lower name) st"

definition cosmos_replace :: "space \<Rightarrow> space \<Rightarrow> store \<Rightarrow> store" where
  \<comment> \<open>Modelled from the spec: the helper \<^verbatim>\<open>cosmos_replace\<close> (\<open>ConditionedReplace\<close>), which is
      not among the sources: the stored document of the old one's id becomes the new one.
      The version check always passes for the single request modelled here.\<close>
  "cosmos_replace old new st = map (\<lambda>s. if space_id s = space_id old then new else s) st"

definition cosmos_delete :: "space \<Rightarrow> store \<Rightarrow> store" where
  \<comment> \<open>Modelled from the spec: the helper \<^verbatim>\<open>cosmos_delete\<close> (\<open>Delete(aggregate)\<close>), which is
      not among the sources: the stored document of that id is removed.\<close>
  "cosmos_delete doc st = filter (\<lambda>s. space_id s \<noteq> space_id doc) st"

definition cosmos_upsert :: "space \<Rightarrow> store \<Rightarrow> store" where
  \<comment> \<open>Modelled from the spec: the helper \<^verbatim>\<open>cosmos_upsert\<close>, which is not among the sources:
      the document replaces the stored one of its id, or is added.\<close>
  "cosmos_upsert doc st =
     (if list_ex (\<lambda>s. space_id s = space_id doc) st
      then map (\<lambda>s. if space_id s = space_id doc then doc else s) st
      else st @ [doc])"

section \<open>The routers of \<^verbatim>\<open>space.py\<close>\<close>

text \<open>
  Every router function takes the store and returns its result with the store it leaves.
  A raised exception is the result \<open>Inl\<close>; the writes of a request are one
  \<^verbatim>\<open>cosmos_replace\<close>, \<^verbatim>\<open>cosmos_upsert\<close> or \<^verbatim>\<open>cosmos_delete\<close> at its end, so a request that
  raises leaves the store as it found it. What a request takes from its environment is a parameter: the
  caller's identity and admin flag (decoded from the bearer token), the directory's
  \<^verbatim>\<open>vnet_list\<close>, the fresh identifier and the clock.
\<close>

fun update_first :: "('a \<Rightarrow> bool) \<Rightarrow> ('a \<Rightarrow> 'a) \<Rightarrow> 'a list \<Rightarrow> 'a list" where
  \<comment> \<open>\<^verbatim>\<open>target_block\<close> is the first matching element of \<^verbatim>\<open>target_space['blocks']\<close> itself:
      mutating it changes that element of the list\<close>
  "update_first P f [] = []"
| "update_first P f (x # xs) = (if P x then f x # xs else x # update_first P f xs)"

fun index_of :: "('a \<Rightarrow> bool) \<Rightarrow> 'a list \<Rightarrow> nat option" where
  \<comment> \<open>\<^verbatim>\<open>next((i for i, item in enumerate(xs) if P(item)), None)\<close>\<close>
  "index_of P [] = None"
| "index_of P (x # xs) = (if P x then Some 0 else map_option Suc (index_of P xs))"

definition del_at :: "nat \<Rightarrow> 'a list \<Rightarrow> 'a list" where
  \<comment> \<open>\<^verbatim>\<open>del xs[i]\<close> for an index in range\<close>
  "del_at i xs = take i xs @ drop (Suc i) xs"

definition py_max :: "nat list \<Rightarrow> error + nat" where
  \<comment> \<open>\<^verbatim>\<open>max(iterable)\<close>: raises ValueError on an empty iterable\<close>
  "py_max xs = (case xs of [] \<Rightarrow> Inl ValueError | x # ys \<Rightarrow> Inr (fold max ys x))"

definition clipped_prefixes :: "(string \<Rightarrow> string) \<Rightarrow> vnet_info list \<Rightarrow> block \<Rightarrow> vnet \<Rightarrow> ipnetwork list" where
  \<comment> \<open>the prefixes of one attached network that lie within the block, empty when the
      directory does not know the network\<close>
  "clipped_prefixes lower vnet_list target_block v =
     (case find (\<lambda>x. lower (vi_id x) = lower (vnet_id v)) vnet_list of
        Some target \<Rightarrow> filter (\<lambda>x. network_in x (block_cidr target_block)) (prefixes target)
      | None \<Rightarrow> [])"

definition block_all_cidrs :: "(string \<Rightarrow> string) \<Rightarrow> vnet_info list \<Rightarrow> block \<Rightarrow> ipnetwork list" where
  \<comment> \<open>lines 1209 to 1217 (and 592 to 600): the clipped prefixes of the block's networks,
      then the CIDRs of its reservations\<close>
  "block_all_cidrs lower vnet_list target_block =
     concat (map (clipped_prefixes lower vnet_list target_block) (vnets target_block))
     @ map resv_cidr (resv target_block)"

definition available_set :: "block \<Rightarrow> ipnetwork list \<Rightarrow> ipset" where
  \<comment> \<open>lines 1219 to 1221: \<^verbatim>\<open>block_set ^ reserved_set\<close>\<close>
  "available_set target_block cidrs =
     (let block_set = IPSet [block_cidr target_block];
          reserved_set = IPSet cidrs
      in ipset_xor block_set reserved_set)"

definition select_available :: "int \<Rightarrow> bool \<Rightarrow> bool \<Rightarrow> ipset \<Rightarrow> error + ipnetwork option" where
  \<comment> \<open>lines 1223 to 1231 (and 606 to 611): the free block to carve from, \<open>None\<close> when no
      free block is large enough\<close>
  "select_available sz reverse smallest avail =
     (let sliced = (if reverse then rev (iter_cidrs avail) else iter_cidrs avail) in
      if smallest then
        (let cidr_list = filter (\<lambda>x. int (prefixlen x) \<le> sz) sliced in
         case py_max (map prefixlen cidr_list) of
           Inl e \<Rightarrow> Inl e
         | Inr min_mask \<Rightarrow> Inr (find (\<lambda>network. prefixlen network = min_mask) cidr_list))
      else Inr (find (\<lambda>net. int (prefixlen net) \<le> sz) sliced))"

definition next_cidr :: "ipnetwork \<Rightarrow> int \<Rightarrow> bool \<Rightarrow> error + ipnetwork" where
  \<comment> \<open>line 1236: \<^verbatim>\<open>list(available_block.subnet(req.size))[next_selector]\<close>\<close>
  "next_cidr available_block sz reverse =
     (case subnet available_block sz of
        Inl e \<Rightarrow> Inl e
      | Inr subnets \<Rightarrow>
          (if subnets = [] then Inl IndexError
           else Inr (if reverse then last subnets else hd subnets)))"

definition create_block_reservation ::
  "(string \<Rightarrow> string) \<Rightarrow> string \<Rightarrow> string \<Rightarrow> block_cidr_req \<Rightarrow> string \<Rightarrow> string \<Rightarrow> nat \<Rightarrow> vnet_info list \<Rightarrow> store
     \<Rightarrow> (error + reservation) \<times> store" where
  "create_block_reservation lower space_nm block_nm req creator_id new_id now vnet_list st =
     (case cosmos_query_space lower space_nm st of
        [] \<Rightarrow> (Inl (HTTPException 400 ''Invalid space name.''), st)
      | target_space # _ \<Rightarrow>
     (case find (\<lambda>x. lower (block_name x) = lower block_nm) (blocks target_space) of
        None \<Rightarrow> (Inl (HTTPException 400 ''Invalid block name.''), st)
      | Some target_block \<Rightarrow>
     (case select_available (req_size req) (reverse_search req) (smallest_cidr req)
             (available_set target_block (block_all_cidrs lower vnet_list target_block)) of
        Inl e \<Rightarrow> (Inl e, st)
      | Inr None \<Rightarrow>
          (Inl (HTTPException 500 ''Network of requested size unavailable in target block.''), st)
      | Inr (Some available_block) \<Rightarrow>
     (case next_cidr available_block (req_size req) (reverse_search req) of
        Inl e \<Rightarrow> (Inl e, st)
      | Inr cidr \<Rightarrow>
          (let new_cidr = \<lparr>resv_id = new_id, resv_cidr = cidr, userId = creator_id,
                            createdOn = now, status = ''wait''\<rparr>;
               new_space = target_space
                 \<lparr>blocks := update_first (\<lambda>x. lower (block_name x) = lower block_nm)
                              (\<lambda>b. b\<lparr>resv := resv b @ [new_cidr]\<rparr>) (blocks target_space)\<rparr>
           in (Inr new_cidr, cosmos_replace target_space new_space st))))))"

text \<open>\<^verbatim>\<open>create_multi_block_reservation\<close>: the loop over \<^verbatim>\<open>req.blocks\<close> carries
  \<^verbatim>\<open>available_block\<close>, \<^verbatim>\<open>available_block_name\<close> and \<^verbatim>\<open>target_block\<close>; its body runs only
  while no block has been found.\<close>

fun scan_blocks ::
  "(string \<Rightarrow> string) \<Rightarrow> vnet_info list \<Rightarrow> block list \<Rightarrow> int \<Rightarrow> bool \<Rightarrow> bool \<Rightarrow> string list
     \<Rightarrow> ipnetwork option \<times> string option \<times> block option
     \<Rightarrow> error + ipnetwork option \<times> string option \<times> block option" where
  "scan_blocks lower vnet_list space_blocks sz reverse smallest [] state = Inr state"
| "scan_blocks lower vnet_list space_blocks sz reverse smallest (block_nm # rest)
     (available_block, available_block_name, target_block) =
     (if available_block \<noteq> None
      then scan_blocks lower vnet_list space_blocks sz reverse smallest rest
             (available_block, available_block_name, target_block)
      else
        (case find (\<lambda>x. lower (block_name x) = lower block_nm) space_blocks of
           None \<Rightarrow> Inl TypeError
         | Some found \<Rightarrow>
        (case select_available sz reverse smallest
                (available_set found (block_all_cidrs lower vnet_list found)) of
           Inl e \<Rightarrow> Inl e
         | Inr chosen \<Rightarrow>
             scan_blocks lower vnet_list space_blocks sz reverse smallest rest
               (chosen, (if chosen \<noteq> None then Some block_nm else None), Some found))))"

definition create_multi_block_reservation ::
  "(string \<Rightarrow> string) \<Rightarrow> string \<Rightarrow> space_cidr_req \<Rightarrow> string \<Rightarrow> string \<Rightarrow> nat \<Rightarrow> vnet_info list \<Rightarrow> store
     \<Rightarrow> (error + reservation \<times> string) \<times> store" where
  \<comment> \<open>the result is the new reservation with the name of the block it was created in
      (\<^verbatim>\<open>new_cidr['block']\<close>). The loop sets \<^verbatim>\<open>available_block_name\<close> whenever it sets
      \<^verbatim>\<open>available_block\<close>, so the branch with a block and no name is never taken. The
      detail of the error for unknown block names is the source's format string, without
      the list of names it is filled with.\<close>
  "create_multi_block_reservation lower space_nm req creator_id new_id now vnet_list st =
     (case cosmos_query_space lower space_nm st of
        [] \<Rightarrow> (Inl (HTTPException 400 ''Invalid space name.''), st)
      | target_space # _ \<Rightarrow>
     (if set (req_blocks req) - set (map block_name (blocks target_space)) \<noteq> {}
      then (Inl (HTTPException 400 ''Invalid Block(s) in Block list: {}.''), st)
      else
     (case scan_blocks lower vnet_list (blocks target_space) (req_size req) (reverse_search req)
             (smallest_cidr req) (req_blocks req) (None, None, None) of
        Inl e \<Rightarrow> (Inl e, st)
      | Inr (None, _, _) \<Rightarrow>
          (Inl (HTTPException 500 ''Network of requested size unavailable in target block(s).''), st)
      | Inr (Some available_block, None, _) \<Rightarrow> (Inl TypeError, st)
      | Inr (Some available_block, Some available_block_name, _) \<Rightarrow>
     (case next_cidr available_block (req_size req) (reverse_search req) of
        Inl e \<Rightarrow> (Inl e, st)
      | Inr cidr \<Rightarrow>
          (let new_cidr = \<lparr>resv_id = new_id, resv_cidr = cidr, userId = creator_id,
                            createdOn = now, status = ''wait''\<rparr>;
               new_space = target_space
                 \<lparr>blocks := update_first (\<lambda>x. lower (block_name x) = lower available_block_name)
                              (\<lambda>b. b\<lparr>resv := resv b @ [new_cidr]\<rparr>) (blocks target_space)\<rparr>
           in (Inr (new_cidr, available_block_name), cosmos_replace target_space new_space st))))))"

fun delete_ids :: "string list \<Rightarrow> reservation list \<Rightarrow> error + reservation list" where
  \<comment> \<open>lines 1315 to 1317: \<^verbatim>\<open>del\<close> with the index \<open>None\<close> is a TypeError\<close>
  "delete_ids [] rs = Inr rs"
| "delete_ids (i # ids) rs =
     (case index_of (\<lambda>item. resv_id item = i) rs of
        None \<Rightarrow> Inl TypeError
      | Some index \<Rightarrow> delete_ids ids (del_at index rs))"

definition delete_block_reservations ::
  "(string \<Rightarrow> string) \<Rightarrow> string \<Rightarrow> string \<Rightarrow> string list \<Rightarrow> string \<Rightarrow> bool \<Rightarrow> store \<Rightarrow> (error + unit) \<times> store" where
  "delete_block_reservations lower space_nm block_nm req user_name is_admin st =
     (case cosmos_query_space lower space_nm st of
        [] \<Rightarrow> (Inl (HTTPException 400 ''Invalid space name.''), st)
      | target_space # _ \<Rightarrow>
     (case find (\<lambda>x. lower (block_name x) = lower block_nm) (blocks target_space) of
        None \<Rightarrow> (Inl (HTTPException 400 ''Invalid block name.''), st)
      | Some target_block \<Rightarrow>
     (if card (set req) \<noteq> length req
      then (Inl (HTTPException 400 ''List contains one or more duplicate id's.''), st)
      else
     (let current_reservations = map resv_id (resv target_block) in
      if \<not> list_all (\<lambda>elem. elem \<in> set current_reservations) req
      then (Inl (HTTPException 400 ''List contains one or more invalid id's.''), st)
      else if \<not> is_admin
              \<and> filter (\<lambda>x. resv_id x \<in> set req \<and> userId x \<noteq> user_name) (resv target_block) \<noteq> []
      then (Inl (HTTPException 403 ''Users can only delete their own reservations.''), st)
      else
     (case delete_ids req (resv target_block) of
        Inl e \<Rightarrow> (Inl e, st)
      | Inr remaining \<Rightarrow>
          (let new_space = target_space
                 \<lparr>blocks := update_first (\<lambda>x. lower (block_name x) = lower block_nm)
                              (\<lambda>b. b\<lparr>resv := remaining\<rparr>) (blocks target_space)\<rparr>
           in (Inr (), cosmos_replace target_space new_space st)))))))"

definition delete_block ::
  "(string \<Rightarrow> string) \<Rightarrow> string \<Rightarrow> string \<Rightarrow> bool \<Rightarrow> bool \<Rightarrow> store \<Rightarrow> (error + unit) \<times> store" where
  "delete_block lower space_nm block_nm force is_admin st =
     (if \<not> is_admin then (Inl (HTTPException 403 ''This API is admin restricted.''), st)
      else
     (case cosmos_query_space lower space_nm st of
        [] \<Rightarrow> (Inl (HTTPException 400 ''Invalid space name.''), st)
      | target_space # _ \<Rightarrow>
     (case find (\<lambda>x. lower (block_name x) = lower block_nm) (blocks target_space) of
        None \<Rightarrow> (Inl (HTTPException 400 ''Invalid block name.''), st)
      | Some target_block \<Rightarrow>
     (if \<not> force \<and> (length (vnets target_block) > 0 \<or> length (resv target_block) > 0)
      then (Inl (HTTPException 400 ''Cannot delete block while it contains vNets or reservations.''), st)
      else
     (case index_of (\<lambda>item. block_name item = block_nm) (blocks target_space) of
        None \<Rightarrow> (Inl TypeError, st)
      | Some index \<Rightarrow>
          (Inr (), cosmos_replace target_space
                     (target_space\<lparr>blocks := del_at index (blocks target_space)\<rparr>) st))))))"

definition create_block ::
  "(string \<Rightarrow> string) \<Rightarrow> string \<Rightarrow> block_req \<Rightarrow> bool \<Rightarrow> store \<Rightarrow> (error + block) \<times> store" where
  "create_block lower space_nm block is_admin st =
     (if \<not> is_admin then (Inl (HTTPException 403 ''This API is admin restricted.''), st)
      else
     (case cosmos_query_space lower space_nm st of
        [] \<Rightarrow> (Inl (HTTPException 400 ''Invalid space name.''), st)
      | target_space # _ \<Rightarrow>
     (let block_cidrs = IPSet (map block_cidr (blocks target_space));
          overlap = ipset_bool (ipset_and (IPSet [breq_cidr block]) block_cidrs)
      in if overlap
         then (Inl (HTTPException 400 ''New block cannot overlap existing blocks.''), st)
         else
           (let new_block = \<lparr>block_name = breq_name block, block_cidr = breq_cidr block,
                              vnets = [], resv = []\<rparr>
            in (Inr new_block,
                cosmos_replace target_space
                  (target_space\<lparr>blocks := blocks target_space @ [new_block]\<rparr>) st)))))"

definition create_space ::
  "(string \<Rightarrow> string) \<Rightarrow> space_req \<Rightarrow> string \<Rightarrow> bool \<Rightarrow> store \<Rightarrow> (error + space) \<times> store" where
  \<comment> \<open>\<open>new_id\<close> is the \<^verbatim>\<open>uuid.uuid4()\<close> of the new document\<close>
  "create_space lower space_rq new_id is_admin st =
     (if \<not> is_admin then (Inl (HTTPException 403 ''This API is admin restricted.''), st)
      else
     (case find (\<lambda>x. lower (space_name x) = lower (sreq_name space_rq)) (cosmos_query_spaces st) of
        Some duplicate \<Rightarrow> (Inl (HTTPException 400 ''Space name must be unique.''), st)
      | None \<Rightarrow>
          (let new_space = \<lparr>space_id = new_id, space_name = sreq_name space_rq,
                             space_desc = sreq_desc space_rq, blocks = []\<rparr>
           in (Inr new_space, cosmos_upsert new_space st))))"

text \<open>\<^verbatim>\<open>update_space\<close> first builds a \<^verbatim>\<open>jsonpatch.JsonPatch\<close> from the request, which raises
  \<^verbatim>\<open>InvalidJsonPatch\<close> for an operation that is none of the six of JSON Patch, and then
  applies the patch that \<^verbatim>\<open>scrub_space_patch\<close> has reduced to the allowed operations:
  \<^verbatim>\<open>replace\<close> of \<^verbatim>\<open>/name\<close> and of \<^verbatim>\<open>/desc\<close>, each with the regular expression its value
  must match. \<^verbatim>\<open>re.match\<close> with a final \<^verbatim>\<open>$\<close> also accepts one trailing newline. A patch
  item has its three members, and its path is a JSON pointer.\<close>

definition jsonpatch_operations :: "string list" where
  \<comment> \<open>the operation names \<^verbatim>\<open>jsonpatch\<close> knows\<close>
  "jsonpatch_operations = [''remove'', ''add'', ''replace'', ''move'', ''test'', ''copy'']"

definition valid_json_patch :: "patch_item list \<Rightarrow> bool" where
  \<comment> \<open>\<^verbatim>\<open>jsonpatch.JsonPatch(updates)\<close> raises nothing\<close>
  "valid_json_patch updates = list_all (\<lambda>item. patch_op item \<in> set jsonpatch_operations) updates"

definition alnum :: "char \<Rightarrow> bool" where
  "alnum c = (c \<in> set ''abcdefghijklmnopqrstuvwxyzABCDEFGHIJKLMNOPQRSTUVWXYZ0123456789'')"

definition re_match_repeat :: "(char \<Rightarrow> bool) \<Rightarrow> nat \<Rightarrow> string \<Rightarrow> bool" where
  \<comment> \<open>\<^verbatim>\<open>re.match('^([...]){1,n}$', s)\<close> for a character class\<close>
  "re_match_repeat cls n s =
     (let body = (if s \<noteq> [] \<and> last s = CHR 0x0A then butlast s else s)
      in 1 \<le> length body \<and> length body \<le> n \<and> list_all cls body)"

definition allowed_ops :: "(string \<times> string \<times> (string \<Rightarrow> bool) \<times> string) list" where
  "allowed_ops =
     [(''replace'', ''/name'', re_match_repeat alnum 16,
       ''space name can be a maximum of 16 characters and may contain alphanumerics.''),
      (''replace'', ''/desc'', re_match_repeat (\<lambda>c. alnum c \<or> c \<in> set '' ._-'') 32,
       ''space description can be a maximum of 32 characters and may contain alphanumerics, spaces, underscores, hypens, and periods.'')]"

fun scrub_space_patch :: "patch_item list \<Rightarrow> error + patch_item list" where
  "scrub_space_patch [] = Inr []"
| "scrub_space_patch (item # rest) =
     (case find (\<lambda>(op, path, valid, err). op = patch_op item \<and> path = patch_path item) allowed_ops of
        None \<Rightarrow> scrub_space_patch rest
      | Some (op, path, valid, err) \<Rightarrow>
          (if valid (patch_value item)
           then (case scrub_space_patch rest of
                   Inl e \<Rightarrow> Inl e
                 | Inr scrubbed \<Rightarrow> Inr (item # scrubbed))
           else Inl (HTTPException 400 err)))"

definition apply_patch_item :: "patch_item \<Rightarrow> space \<Rightarrow> space" where
  \<comment> \<open>\<^verbatim>\<open>jsonpatch\<close>'s \<^verbatim>\<open>replace\<close> on the two paths that pass the scrub\<close>
  "apply_patch_item item sp =
     (if patch_path item = ''/name'' then sp\<lparr>space_name := patch_value item\<rparr>
      else if patch_path item = ''/desc'' then sp\<lparr>space_desc := patch_value item\<rparr>
      else sp)"

definition update_space ::
  "(string \<Rightarrow> string) \<Rightarrow> string \<Rightarrow> patch_item list \<Rightarrow> bool \<Rightarrow> store \<Rightarrow> (error + space) \<times> store" where
  "update_space lower space_nm updates is_admin st =
     (if \<not> is_admin then (Inl (HTTPException 403 ''This API is admin restricted.''), st)
      else
     (case cosmos_query_space lower space_nm st of
        [] \<Rightarrow> (Inl (HTTPException 400 ''Invalid space name.''), st)
      | target_space # _ \<Rightarrow>
     (if \<not> valid_json_patch updates
      then (Inl (HTTPException 500 ''Invalid JSON patch, please review and try again.''), st)
      else
     (case scrub_space_patch updates of
        Inl e \<Rightarrow> (Inl e, st)
      | Inr scrubbed_patch \<Rightarrow>
          (let updated = fold apply_patch_item scrubbed_patch target_space
           in (Inr updated, cosmos_replace target_space updated st))))))"

definition delete_space ::
  "(string \<Rightarrow> string) \<Rightarrow> string \<Rightarrow> bool \<Rightarrow> bool \<Rightarrow> store \<Rightarrow> (error + unit) \<times> store" where
  "delete_space lower space_nm force is_admin st =
     (if \<not> is_admin then (Inl (HTTPException 403 ''This API is admin restricted.''), st)
      else
     (case cosmos_query_space lower space_nm st of
        [] \<Rightarrow> (Inl (HTTPException 400 ''Invalid space name.''), st)
      | target_space # _ \<Rightarrow>
     (if \<not> force \<and> length (blocks target_space) > 0
      then (Inl (HTTPException 400 ''Cannot delete space while it contains blocks.''), st)
      else (Inr (), cosmos_delete target_space st))))"

definition create_block_vnet ::
  "(string \<Rightarrow> string) \<Rightarrow> string \<Rightarrow> string \<Rightarrow> vnet \<Rightarrow> vnet_info list \<Rightarrow> bool \<Rightarrow> store \<Rightarrow> (error + block) \<times> store" where
  "create_block_vnet lower space_nm block_nm new_vnet vnet_list is_admin st =
     (if \<not> is_admin then (Inl (HTTPException 403 ''API restricted to admins.''), st)
      else
     (case cosmos_query_space lower space_nm st of
        [] \<Rightarrow> (Inl (HTTPException 400 ''Invalid space name.''), st)
      | target_space # _ \<Rightarrow>
     (case find (\<lambda>x. lower (block_name x) = lower block_nm) (blocks target_space) of
        None \<Rightarrow> (Inl (HTTPException 400 ''Invalid block name.''), st)
      | Some target_block \<Rightarrow>
     (if vnet_id new_vnet \<in> set (map vnet_id (vnets target_block))
      then (Inl (HTTPException 400 ''vNet already exists in block.''), st)
      else
     (case find (\<lambda>x. lower (vi_id x) = lower (vnet_id new_vnet)) vnet_list of
        None \<Rightarrow> (Inl (HTTPException 400 ''Invalid vNet ID.''), st)
      | Some target_vnet \<Rightarrow>
     (case find (\<lambda>x. network_in x (block_cidr target_block)) (prefixes target_vnet) of
        None \<Rightarrow> (Inl (HTTPException 400 ''vNet CIDR not within block CIDR.''), st)
      | Some target_cidr \<Rightarrow>
     (let block_vnet_cidrs =
            concat (map (clipped_prefixes lower vnet_list target_block) (vnets target_block));
          cidr_overlap = ipset_and (IPSet block_vnet_cidrs) (IPSet [target_cidr])
      in if ipset_bool cidr_overlap
         then (Inl (HTTPException 400
                 ''Block already contains vNet(s) within the CIDR range of target vNet.''), st)
         else
           (let attached = target_block\<lparr>vnets := vnets target_block @ [new_vnet\<lparr>active := True\<rparr>]\<rparr>;
                new_space = target_space
                  \<lparr>blocks := update_first (\<lambda>x. lower (block_name x) = lower block_nm)
                               (\<lambda>b. attached) (blocks target_space)\<rparr>
            in (Inr attached, cosmos_replace target_space new_space st)))))))))"

text \<open>\<^verbatim>\<open>update_block_vnets\<close>: the loop over the requested ids carries \<^verbatim>\<open>invalid_vnets\<close>,
  \<^verbatim>\<open>outside_block_cidr\<close>, \<^verbatim>\<open>vnet_ipset\<close> and \<^verbatim>\<open>vnet_overlap\<close>. The details of the errors for
  unknown and outside networks are the source's format strings, without the lists they are
  filled with.\<close>

fun check_vnets ::
  "(string \<Rightarrow> string) \<Rightarrow> vnet_info list \<Rightarrow> block \<Rightarrow> string list
     \<Rightarrow> string list \<times> string list \<times> ipset \<times> bool
     \<Rightarrow> string list \<times> string list \<times> ipset \<times> bool" where
  "check_vnets lower vnet_list target_block [] state = state"
| "check_vnets lower vnet_list target_block (v # rest)
     (invalid_vnets, outside_block_cidr, vnet_ipset, vnet_overlap) =
     check_vnets lower vnet_list target_block rest
       (case find (\<lambda>x. lower (vi_id x) = lower v) vnet_list of
          None \<Rightarrow> (invalid_vnets @ [v], outside_block_cidr, vnet_ipset, vnet_overlap)
        | Some target_vnet \<Rightarrow>
       (case find (\<lambda>x. network_in x (block_cidr target_block)) (prefixes target_vnet) of
          None \<Rightarrow> (invalid_vnets, outside_block_cidr @ [v], vnet_ipset, vnet_overlap)
        | Some target_cidr \<Rightarrow>
            (if \<not> ipset_bool (ipset_and vnet_ipset (IPSet [target_cidr]))
             then (invalid_vnets, outside_block_cidr,
                   ipset_or vnet_ipset (cidr_set target_cidr), vnet_overlap)
             else (invalid_vnets, outside_block_cidr, vnet_ipset, True))))"

definition update_block_vnets ::
  "(string \<Rightarrow> string) \<Rightarrow> string \<Rightarrow> string \<Rightarrow> string list \<Rightarrow> vnet_info list \<Rightarrow> bool \<Rightarrow> store
     \<Rightarrow> (error + vnet list) \<times> store" where
  "update_block_vnets lower space_nm block_nm vnet_ids vnet_list is_admin st =
     (if \<not> is_admin then (Inl (HTTPException 403 ''API restricted to admins.''), st)
      else
     (case cosmos_query_space lower space_nm st of
        [] \<Rightarrow> (Inl (HTTPException 400 ''Invalid space name.''), st)
      | target_space # _ \<Rightarrow>
     (case find (\<lambda>x. lower (block_name x) = lower block_nm) (blocks target_space) of
        None \<Rightarrow> (Inl (HTTPException 400 ''Invalid block name.''), st)
      | Some target_block \<Rightarrow>
     (if length vnet_ids \<noteq> card (set vnet_ids)
      then (Inl (HTTPException 400 ''List contains duplicate vNets.''), st)
      else
     (case check_vnets lower vnet_list target_block vnet_ids ([], [], IPSet [], False) of
        (invalid_vnets, outside_block_cidr, vnet_ipset, vnet_overlap) \<Rightarrow>
     (if vnet_overlap
      then (Inl (HTTPException 400 ''vNet list contains overlapping CIDRs.''), st)
      else if length outside_block_cidr > 0
      then (Inl (HTTPException 400 ''vNet CIDR(s) not within Block CIDR: {}''), st)
      else if length invalid_vnets > 0
      then (Inl (HTTPException 400 ''Invalid vNet ID(s): {}''), st)
      else
        (let new_vnet_list = map (\<lambda>v. \<lparr>vnet_id = v, active = True\<rparr>) vnet_ids;
             new_space = target_space
               \<lparr>blocks := update_first (\<lambda>x. lower (block_name x) = lower block_nm)
                            (\<lambda>b. b\<lparr>vnets := new_vnet_list\<rparr>) (blocks target_space)\<rparr>
         in (Inr new_vnet_list, cosmos_replace target_space new_space st))))))))"

fun delete_vnet_ids :: "string list \<Rightarrow> vnet list \<Rightarrow> error + vnet list" where
  \<comment> \<open>lines 1117 to 1119\<close>
  "delete_vnet_ids [] vs = Inr vs"
| "delete_vnet_ids (i # ids) vs =
     (case index_of (\<lambda>item. vnet_id item = i) vs of
        None \<Rightarrow> Inl TypeError
      | Some index \<Rightarrow> delete_vnet_ids ids (del_at index vs))"

definition delete_block_vnets ::
  "(string \<Rightarrow> string) \<Rightarrow> string \<Rightarrow> string \<Rightarrow> string list \<Rightarrow> bool \<Rightarrow> store
     \<Rightarrow> (error + unit) \<times> store" where
  "delete_block_vnets lower space_nm block_nm req is_admin st =
     (if \<not> is_admin then (Inl (HTTPException 403 ''API restricted to admins.''), st)
      else
     (case cosmos_query_space lower space_nm st of
        [] \<Rightarrow> (Inl (HTTPException 400 ''Invalid space name.''), st)
      | target_space # _ \<Rightarrow>
     (case find (\<lambda>x. lower (block_name x) = lower block_nm) (blocks target_space) of
        None \<Rightarrow> (Inl (HTTPException 400 ''Invalid block name.''), st)
      | Some target_block \<Rightarrow>
     (if card (set req) \<noteq> length req
      then (Inl (HTTPException 400 ''List contains one or more duplicate vNet id's.''), st)
      else
     (let current_vnets = map vnet_id (vnets target_block) in
      if \<not> list_all (\<lambda>elem. elem \<in> set current_vnets) req
      then (Inl (HTTPException 400 ''List contains one or more invalid vNet id's.''), st)
      else
     (case delete_vnet_ids req (vnets target_block) of
        Inl e \<Rightarrow> (Inl e, st)
      | Inr remaining \<Rightarrow>
          (let new_space = target_space
                 \<lparr>blocks := update_first (\<lambda>x. lower (block_name x) = lower block_nm)
                              (\<lambda>b. b\<lparr>vnets := remaining\<rparr>) (blocks target_space)\<rparr>
           in (Inr (), cosmos_replace target_space new_space st))))))))"

section \<open>Invariants and example data\<close>

text \<open>The compacted form of a prefix tree, the invariants of the store (sibling blocks
  share no address, names are unique up to case), what a mutation of one block does to the
  store, and the aggregates on which the scenarios are run.\<close>

fun compact :: "ipset \<Rightarrow> bool" where
  \<comment> \<open>no node has two full or two empty halves: no two listed blocks can be merged\<close>
  "compact Empty = True"
| "compact Full = True"
| "compact (Node l r) =
     (compact l \<and> compact r \<and> (l \<noteq> Full \<or> r \<noteq> Full) \<and> (l \<noteq> Empty \<or> r \<noteq> Empty))"

fun blocks_disjoint :: "block list \<Rightarrow> bool" where
  \<comment> \<open>no two blocks of the list share an address\<close>
  "blocks_disjoint [] = True"
| "blocks_disjoint (b # bs) =
     ((\<forall>c\<in>set bs. addrs (block_cidr b) \<inter> addrs (block_cidr c) = {}) \<and> blocks_disjoint bs)"

definition store_disjoint :: "store \<Rightarrow> bool" where
  \<comment> \<open>invariant 1: sibling blocks never overlap, in every space of the tenant\<close>
  "store_disjoint st = (\<forall>s\<in>set st. blocks_disjoint (blocks s))"

definition demo_block :: "reservation list \<Rightarrow> block" where
  \<comment> \<open>the block \<open>10.0.0.0/24\<close> of the scenarios, holding the given reservations\<close>
  "demo_block rs =
     \<lparr>block_name = ''b1'', block_cidr = IPNetwork (ip 10 0 0 0) 24, vnets = [], resv = rs\<rparr>"

definition demo_space :: "block list \<Rightarrow> space" where
  "demo_space bs = \<lparr>space_id = ''s1'', space_name = ''Prod'', space_desc = ''d'', blocks = bs\<rparr>"

definition demo_resv :: "string \<Rightarrow> ipnetwork \<Rightarrow> string \<Rightarrow> reservation" where
  "demo_resv i c u = \<lparr>resv_id = i, resv_cidr = c, userId = u, createdOn = 0, status = ''wait''\<rparr>"

definition demo_block2 :: block where
  \<comment> \<open>a second, empty block \<open>10.0.1.0/24\<close>\<close>
  "demo_block2 =
     \<lparr>block_name = ''b2'', block_cidr = IPNetwork (ip 10 0 1 0) 24, vnets = [], resv = []\<rparr>"

definition full_block :: block where
  \<comment> \<open>the block \<open>10.0.0.0/24\<close> with all of its range reserved\<close>
  "full_block = demo_block [demo_resv ''r0'' (IPNetwork (ip 10 0 0 0) 24) ''v'']"

definition demo_directory :: "vnet_info list" where
  \<comment> \<open>the directory's answer: \<open>v1\<close> with one prefix, \<open>v2\<close> with two prefixes in the block\<close>
  "demo_directory =
     [\<lparr>vi_id = ''v1'', prefixes = [IPNetwork (ip 10 0 0 64) 26]\<rparr>,
      \<lparr>vi_id = ''v2'', prefixes = [IPNetwork (ip 10 0 0 0) 26, IPNetwork (ip 10 0 0 64) 26]\<rparr>,
      \<lparr>vi_id = ''v3'', prefixes = [IPNetwork (ip 10 0 0 128) 25]\<rparr>]"

definition attached_block :: block where
  \<comment> \<open>the block \<open>10.0.0.0/24\<close> with the network \<open>v1\<close> attached\<close>
  "attached_block = demo_block [] \<lparr>vnets := [\<lparr>vnet_id = ''v1'', active = True\<rparr>]\<rparr>"

definition two_spaces :: store where
  \<comment> \<open>a tenant with the spaces \<open>alpha\<close> and \<open>beta\<close>\<close>
  "two_spaces =
     [\<lparr>space_id = ''s1'', space_name = ''alpha'', space_desc = ''first'', blocks = []\<rparr>,
      \<lparr>space_id = ''s2'', space_name = ''beta'', space_desc = ''second'', blocks = []\<rparr>]"

definition tenant_names_unique :: "(string \<Rightarrow> string) \<Rightarrow> store \<Rightarrow> bool" where
  \<comment> \<open>invariant 4 for spaces: the documents have distinct ids (the key of the store) and
      their names are unique up to case\<close>
  "tenant_names_unique lower st =
     (distinct (map space_id st) \<and> distinct (map (\<lambda>s. lower (space_name s)) st))"

definition block_names_unique :: "(string \<Rightarrow> string) \<Rightarrow> store \<Rightarrow> bool" where
  \<comment> \<open>invariant 4 for blocks: within every space the block names are unique up to case\<close>
  "block_names_unique lower st =
     (\<forall>s\<in>set st. distinct (map (\<lambda>b. lower (block_name b)) (blocks s)))"

definition block_edit :: "store \<Rightarrow> store \<Rightarrow> bool" where
  \<comment> \<open>what most mutations do to the store: nothing, or one stored space is replaced by a
      document of the same id and name whose blocks have the same names and ranges in the
      same order, or the same blocks but one\<close>
  "block_edit st st' =
     (st' = st \<or>
      (\<exists>sp new. sp \<in> set st \<and> space_id new = space_id sp \<and> space_name new = space_name sp
         \<and> ((map block_name (blocks new) = map block_name (blocks sp)
               \<and> map block_cidr (blocks new) = map block_cidr (blocks sp))
              \<or> (\<exists>i. blocks new = del_at i (blocks sp)))
         \<and> st' = cosmos_replace sp new st))"

section \<open>Properties of the address library model\<close>

text \<open>
  The set operations compute union, intersection and symmetric difference of the address
  sets. Every tree built from well-formed networks has at most 32 levels and is compact,
  and a compact tree is determined by its address set (\<open>ipset_addrs_unique\<close>): the model
  has one representation per set, as the compacted \<^verbatim>\<open>IPSet\<close> has. The blocks listed by
  \<open>iter_cidrs\<close> are aligned, ascending and pairwise disjoint, and they cover exactly the
  address set; \<open>ipset_bool\<close> is true exactly of the non-empty sets.
\<close>

lemma isin_node: "isin (node l r) k x = isin (Node l r) k x"
  by (induction l r rule: node.induct) simp_all

lemma isin_ipset_or: "isin (ipset_or s t) k x = (isin s k x \<or> isin t k x)"
  by (induction s t arbitrary: k rule: ipset_or.induct) (simp_all add: isin_node)

lemma isin_ipset_and: "isin (ipset_and s t) k x = (isin s k x \<and> isin t k x)"
  by (induction s t arbitrary: k rule: ipset_and.induct) (simp_all add: isin_node)

lemma isin_ipset_xor: "isin (ipset_xor s t) k x = (isin s k x \<noteq> isin t k x)"
  by (induction s t arbitrary: k rule: ipset_xor.induct) (simp_all add: isin_node)

lemma height_node: "height (node l r) \<le> Suc (max (height l) (height r))"
  by (induction l r rule: node.induct) simp_all

lemma height_ipset_or: "height (ipset_or s t) \<le> max (height s) (height t)"
proof (induction s t rule: ipset_or.induct)
  case (5 l1 r1 l2 r2)
  have "height (node (ipset_or l1 l2) (ipset_or r1 r2))
          \<le> Suc (max (height (ipset_or l1 l2)) (height (ipset_or r1 r2)))"
    by (rule height_node)
  with 5 show ?case by simp
qed simp_all

lemma height_ipset_and: "height (ipset_and s t) \<le> max (height s) (height t)"
proof (induction s t rule: ipset_and.induct)
  case (5 l1 r1 l2 r2)
  have "height (node (ipset_and l1 l2) (ipset_and r1 r2))
          \<le> Suc (max (height (ipset_and l1 l2)) (height (ipset_and r1 r2)))"
    by (rule height_node)
  with 5 show ?case by simp
qed simp_all

lemma height_ipset_xor: "height (ipset_xor s t) \<le> max (height s) (height t)"
proof (induction s t rule: ipset_xor.induct)
  case (4 l r)
  have "height (node (ipset_xor Full l) (ipset_xor Full r))
          \<le> Suc (max (height (ipset_xor Full l)) (height (ipset_xor Full r)))"
    by (rule height_node)
  with 4 show ?case by simp
next
  case (5 l r)
  have "height (node (ipset_xor l Full) (ipset_xor r Full))
          \<le> Suc (max (height (ipset_xor l Full)) (height (ipset_xor r Full)))"
    by (rule height_node)
  with 5 show ?case by simp
next
  case (6 l1 r1 l2 r2)
  have "height (node (ipset_xor l1 l2) (ipset_xor r1 r2))
          \<le> Suc (max (height (ipset_xor l1 l2)) (height (ipset_xor r1 r2)))"
    by (rule height_node)
  with 6 show ?case by simp
qed simp_all

lemma height_single: "height (single p k a) = p"
  by (induction p arbitrary: k) simp_all

lemma isin_single:
  "p \<le> k \<Longrightarrow> isin (single p k a) k x = (\<forall>i. k - p \<le> i \<and> i < k \<longrightarrow> bit x i = bit a i)"
proof (induction p arbitrary: k)
  case 0
  then show ?case by auto
next
  case (Suc p)
  then obtain j where k: "k = Suc j" by (cases k) auto
  with Suc.prems have pj: "p \<le> j" by simp
  have IH: "isin (single p j a) j x = (\<forall>i. j - p \<le> i \<and> i < j \<longrightarrow> bit x i = bit a i)"
    using Suc.IH [OF pj] .
  have split: "(\<forall>i. j - p \<le> i \<and> i < Suc j \<longrightarrow> bit x i = bit a i)
      = ((\<forall>i. j - p \<le> i \<and> i < j \<longrightarrow> bit x i = bit a i) \<and> bit x j = bit a j)"
    using pj by (auto simp: less_Suc_eq)
  show ?case
    using IH split by (auto simp: k)
qed

lemma bits_agree_iff_div:
  fixes x a :: nat
  assumes "x < 2 ^ n" "a < 2 ^ n" "m \<le> n"
  shows "(\<forall>i. m \<le> i \<and> i < n \<longrightarrow> bit x i = bit a i) = (x div 2 ^ m = a div 2 ^ m)"
proof
  assume H: "\<forall>i. m \<le> i \<and> i < n \<longrightarrow> bit x i = bit a i"
  have "drop_bit m x = drop_bit m a"
  proof (rule bit_eqI)
    fix i
    show "bit (drop_bit m x) i = bit (drop_bit m a) i"
    proof (cases "m + i < n")
      case True
      then show ?thesis using H by (simp add: bit_drop_bit_eq)
    next
      case False
      then have "x < 2 ^ (m + i)" "a < 2 ^ (m + i)"
        using assms by (meson leI less_le_trans power_increasing one_le_numeral)+
      then have "\<not> bit x (m + i)" "\<not> bit a (m + i)"
        by (simp_all add: bit_iff_odd)
      then show ?thesis by (simp add: bit_drop_bit_eq)
    qed
  qed
  then show "x div 2 ^ m = a div 2 ^ m" by (simp add: drop_bit_eq_div)
next
  assume E: "x div 2 ^ m = a div 2 ^ m"
  show "\<forall>i. m \<le> i \<and> i < n \<longrightarrow> bit x i = bit a i"
  proof (intro allI impI)
    fix i assume "m \<le> i \<and> i < n"
    then obtain d where i: "i = m + d" by (metis le_Suc_ex)
    have "bit (drop_bit m x) d = bit (drop_bit m a) d"
      using E by (simp add: drop_bit_eq_div)
    then show "bit x i = bit a i" by (simp add: bit_drop_bit_eq i)
  qed
qed

lemma isin_cidr_set:
  assumes "wf_net n" "x < 2 ^ 32"
  shows "isin (cidr_set n) 32 x = (x \<in> addrs n)"
  using assms bits_agree_iff_div [of x 32 "net_value n" "32 - prefixlen n"]
  by (simp add: cidr_set_def isin_single addrs_def wf_net_def)

lemma height_cidr_set: "height (cidr_set n) = prefixlen n"
  by (simp add: cidr_set_def height_single)

lemma height_IPSet: "list_all wf_net ns \<Longrightarrow> height (IPSet ns) \<le> 32"
proof (induction ns)
  case Nil
  then show ?case by (simp add: IPSet_def)
next
  case (Cons n ns)
  have "height (ipset_or (cidr_set n) (IPSet ns)) \<le> max (height (cidr_set n)) (height (IPSet ns))"
    by (rule height_ipset_or)
  with Cons show ?case
    by (auto simp: IPSet_def height_cidr_set wf_net_def max_def split: if_splits)
qed

lemma isin_IPSet:
  "list_all wf_net ns \<Longrightarrow> x < 2 ^ 32 \<Longrightarrow> isin (IPSet ns) 32 x = (\<exists>n\<in>set ns. x \<in> addrs n)"
proof (induction ns)
  case Nil
  then show ?case by (simp add: IPSet_def)
next
  case (Cons n ns)
  then have "isin (IPSet ns) 32 x = (\<exists>n\<in>set ns. x \<in> addrs n)" by simp
  moreover have "isin (cidr_set n) 32 x = (x \<in> addrs n)"
    using Cons.prems by (simp add: isin_cidr_set)
  moreover have "IPSet (n # ns) = ipset_or (cidr_set n) (IPSet ns)"
    by (simp add: IPSet_def)
  ultimately show ?case by (simp add: isin_ipset_or)
qed

lemma ipset_addrs_IPSet:
  "list_all wf_net ns \<Longrightarrow> ipset_addrs (IPSet ns) = (\<Union>n\<in>set ns. addrs n)"
  by (auto simp: ipset_addrs_def isin_IPSet addrs_def)

lemma ipset_addrs_xor:
  "ipset_addrs (ipset_xor s t) = (ipset_addrs s - ipset_addrs t) \<union> (ipset_addrs t - ipset_addrs s)"
  by (auto simp: ipset_addrs_def isin_ipset_xor)

lemma ipset_addrs_and: "ipset_addrs (ipset_and s t) = ipset_addrs s \<inter> ipset_addrs t"
  by (auto simp: ipset_addrs_def isin_ipset_and)

lemma ipset_addrs_or: "ipset_addrs (ipset_or s t) = ipset_addrs s \<union> ipset_addrs t"
  by (auto simp: ipset_addrs_def isin_ipset_or)

lemma not_ipset_bool_addrs: "\<not> ipset_bool s \<Longrightarrow> ipset_addrs s = {}"
  by (simp add: ipset_bool_def ipset_addrs_def)

lemma even_div_of_dvd:
  fixes b :: nat
  assumes "2 ^ Suc j dvd b"
  shows "even (b div 2 ^ j)"
proof -
  from assms obtain c where "b = 2 ^ Suc j * c" by (auto simp: dvd_def)
  then have "b div 2 ^ j = 2 * c" by simp
  then show ?thesis by simp
qed

lemma iter_cidrs_at_sound:
  assumes "height t \<le> k" "2 ^ k dvd b" "k \<le> 32"
    and "n \<in> set (iter_cidrs_at t k b)" "x \<in> addrs n"
  shows "isin t k x \<and> x div 2 ^ k = b div 2 ^ k"
  using assms
proof (induction t arbitrary: k b)
  case Empty
  then show ?case by simp
next
  case Full
  then show ?case by (simp add: addrs_def)
next
  case (Node l r)
  then obtain j where k: "k = Suc j" by (cases k) auto
  have ev: "even (b div 2 ^ j)"
    using Node.prems(2) k even_div_of_dvd by blast
  have dj: "2 ^ j dvd b"
    using Node.prems(2) k by (metis dvd_mult_right power_Suc)
  have hl: "height l \<le> j" and hr: "height r \<le> j" and j32: "j \<le> 32"
    using Node.prems(1,3) k by simp_all
  have halve: "x div (2 * 2 ^ j) = (x div 2 ^ j) div 2" for x :: nat
    by (metis div_mult2_eq mult.commute)
  from Node.prems(4) k
  consider (L) "n \<in> set (iter_cidrs_at l j b)" | (R) "n \<in> set (iter_cidrs_at r j (b + 2 ^ j))"
    by auto
  then show ?case
  proof cases
    case L
    from Node.IH(1) [OF hl dj j32 L Node.prems(5)]
    have 1: "isin l j x" and 2: "x div 2 ^ j = b div 2 ^ j" by simp_all
    from 2 ev have "\<not> bit x j" by (simp add: bit_iff_odd)
    with 1 2 show ?thesis by (simp add: k halve)
  next
    case R
    have dj': "2 ^ j dvd b + 2 ^ j" using dj by simp
    from Node.IH(2) [OF hr dj' j32 R Node.prems(5)]
    have 1: "isin r j x" and 2: "x div 2 ^ j = (b + 2 ^ j) div 2 ^ j" by simp_all
    have 3: "(b + 2 ^ j) div 2 ^ j = Suc (b div 2 ^ j)"
      using div_add_self2 [of "2 ^ j" b] by simp
    from 2 3 ev have "bit x j" by (simp add: bit_iff_odd)
    moreover have "Suc (b div 2 ^ j) div 2 = (b div 2 ^ j) div 2"
      using ev by simp
    ultimately show ?thesis using 1 2 3 by (simp add: k halve)
  qed
qed

lemma iter_cidrs_sound:
  assumes "height s \<le> 32" "n \<in> set (iter_cidrs s)"
  shows "addrs n \<subseteq> ipset_addrs s"
proof
  fix x assume x: "x \<in> addrs n"
  have "isin s 32 x \<and> x div 2 ^ 32 = 0 div 2 ^ 32"
    using iter_cidrs_at_sound [of s 32 0 n x] assms x by (simp add: iter_cidrs_def)
  moreover from x have "x < 2 ^ 32" by (simp add: addrs_def)
  ultimately show "x \<in> ipset_addrs s" by (simp add: ipset_addrs_def)
qed

lemma network_in_addrs:
  assumes "network_in other self" "prefixlen other \<le> 32"
  shows "addrs other \<subseteq> addrs self"
proof
  fix x assume "x \<in> addrs other"
  then have x: "x < 2 ^ 32" "x div 2 ^ (32 - prefixlen other) = net_value other div 2 ^ (32 - prefixlen other)"
    by (simp_all add: addrs_def)
  from assms have le: "prefixlen self \<le> prefixlen other"
    and eq: "net_value self div 2 ^ (32 - prefixlen self) = net_value other div 2 ^ (32 - prefixlen self)"
    by (simp_all add: network_in_def Let_def)
  define d where "d = prefixlen other - prefixlen self"
  have sw: "32 - prefixlen self = (32 - prefixlen other) + d"
    using le assms(2) by (simp add: d_def)
  have "x div 2 ^ (32 - prefixlen self) = (x div 2 ^ (32 - prefixlen other)) div 2 ^ d"
    by (simp add: sw power_add div_mult2_eq)
  also have "\<dots> = (net_value other div 2 ^ (32 - prefixlen other)) div 2 ^ d"
    using x(2) by simp
  also have "\<dots> = net_value other div 2 ^ (32 - prefixlen self)"
    by (simp add: sw power_add div_mult2_eq)
  finally show "x \<in> addrs self" using x(1) eq by (simp add: addrs_def)
qed

lemma single_pos:
  "0 < p \<Longrightarrow> single p k a =
     (if bit a (k - 1) then Node Empty (single (p - 1) (k - 1) a)
      else Node (single (p - 1) (k - 1) a) Empty)"
  by (cases p) simp_all

lemmas netaddr_eval =
  IPSet_def cidr_set_def single_pos ip_def iter_cidrs_def subnet_def net_first_def
  network_in_def Let_def bit_0 upt_rec

lemmas lower_eval = ascii_lower_def lower_char_def

lemma iter_cidrs_at_wf:
  assumes "height t \<le> k" "2 ^ k dvd b" "k \<le> 32" "b + 2 ^ k \<le> 2 ^ 32"
    and "n \<in> set (iter_cidrs_at t k b)"
  shows "prefixlen n \<le> 32 \<and> 2 ^ (32 - prefixlen n) dvd net_value n
         \<and> net_value n + 2 ^ (32 - prefixlen n) \<le> 2 ^ 32"
  using assms
proof (induction t arbitrary: k b)
  case Empty
  then show ?case by simp
next
  case Full
  then show ?case by auto
next
  case (Node l r)
  then obtain j where k: "k = Suc j" by (cases k) auto
  have dj: "2 ^ j dvd b"
    using Node.prems(2) k by (metis dvd_mult_right power_Suc)
  have hl: "height l \<le> j" and hr: "height r \<le> j" and j32: "j \<le> 32"
    using Node.prems(1,3) k by simp_all
  have bl: "b + 2 ^ j \<le> 2 ^ 32" and br: "(b + 2 ^ j) + 2 ^ j \<le> 2 ^ 32"
    using Node.prems(4) k by simp_all
  have dj': "2 ^ j dvd b + 2 ^ j" using dj by simp
  from Node.prems(5) k
  consider (L) "n \<in> set (iter_cidrs_at l j b)" | (R) "n \<in> set (iter_cidrs_at r j (b + 2 ^ j))"
    by auto
  then show ?case
  proof cases
    case L
    show ?thesis by (rule Node.IH(1) [OF hl dj j32 bl L])
  next
    case R
    show ?thesis by (rule Node.IH(2) [OF hr dj' j32 br R])
  qed
qed

lemma iter_cidrs_wf:
  assumes "height s \<le> 32" "n \<in> set (iter_cidrs s)"
  shows "prefixlen n \<le> 32" "2 ^ (32 - prefixlen n) dvd net_value n"
    "net_value n + 2 ^ (32 - prefixlen n) \<le> 2 ^ 32"
  using iter_cidrs_at_wf [of s 32 0 n] assms by (simp_all add: iter_cidrs_def)

lemma select_available_mem:
  assumes "select_available sz reverse smallest avail = Inr (Some ab)"
  shows "ab \<in> set (iter_cidrs avail) \<and> int (prefixlen ab) \<le> sz"
proof (cases smallest)
  case True
  define sliced where "sliced = (if reverse then rev (iter_cidrs avail) else iter_cidrs avail)"
  define cidr_list where "cidr_list = filter (\<lambda>x. int (prefixlen x) \<le> sz) sliced"
  from assms True obtain min_mask where
    "find (\<lambda>network. prefixlen network = min_mask) cidr_list = Some ab"
    by (auto simp: select_available_def Let_def sliced_def cidr_list_def split: sum.splits)
  then have "ab \<in> set cidr_list"
    by (auto simp: find_Some_iff)
  then show ?thesis
    by (auto simp: cidr_list_def sliced_def split: if_splits)
next
  case False
  define sliced where "sliced = (if reverse then rev (iter_cidrs avail) else iter_cidrs avail)"
  from assms False have "find (\<lambda>net. int (prefixlen net) \<le> sz) sliced = Some ab"
    by (simp add: select_available_def Let_def sliced_def)
  then have "ab \<in> set sliced \<and> int (prefixlen ab) \<le> sz"
    by (auto simp: find_Some_iff)
  then show ?thesis
    by (auto simp: sliced_def split: if_splits)
qed

lemma subnet_member:
  assumes "subnet n sz = Inr subnets" "c \<in> set subnets" "prefixlen n \<le> 32"
  shows "int (prefixlen c) = sz \<and> prefixlen n \<le> prefixlen c \<and> prefixlen c \<le> 32
         \<and> (\<exists>i < 2 ^ (prefixlen c - prefixlen n).
               net_value c = net_first n + 2 ^ (32 - prefixlen c) * i)"
proof -
  from assms(1,2) have le: "int (prefixlen n) \<le> sz" and le32: "sz \<le> 32"
    by (auto simp: subnet_def split: if_splits)
  define s where "s = nat sz"
  have s: "sz = int s" "prefixlen n \<le> s" "s \<le> 32"
    using le le32 by (simp_all add: s_def)
  have cnt: "(2::nat) ^ (32 - prefixlen n) div 2 ^ (32 - s) = 2 ^ (s - prefixlen n)"
  proof -
    have "32 - prefixlen n = (s - prefixlen n) + (32 - s)" using s by simp
    then have "(2::nat) ^ (32 - prefixlen n) = 2 ^ (s - prefixlen n) * 2 ^ (32 - s)"
      by (simp add: power_add)
    then show ?thesis by simp
  qed
  from assms(1,2) le le32 obtain i where
    "i < 2 ^ (32 - prefixlen n) div 2 ^ (32 - s)"
    "c = IPNetwork (net_first n + 2 ^ (32 - s) * i) s"
    by (auto simp: subnet_def s_def split: if_splits)
  then show ?thesis using s cnt by auto
qed

lemma subnet_addrs:
  assumes "prefixlen n \<le> prefixlen c" "prefixlen c \<le> 32"
    and "i < 2 ^ (prefixlen c - prefixlen n)"
    and "net_value c = net_first n + 2 ^ (32 - prefixlen c) * i"
  shows "addrs c \<subseteq> addrs n"
proof
  fix x assume "x \<in> addrs c"
  then have x: "x < 2 ^ 32" "x div 2 ^ (32 - prefixlen c) = net_value c div 2 ^ (32 - prefixlen c)"
    by (simp_all add: addrs_def)
  define h where "h = 32 - prefixlen c"
  define d where "d = prefixlen c - prefixlen n"
  define q where "q = net_value n div 2 ^ (h + d)"
  have hd: "32 - prefixlen n = h + d"
    using assms(1,2) by (simp add: h_def d_def)
  have first: "net_first n = q * 2 ^ d * 2 ^ h"
    by (simp add: net_first_def hd q_def power_add mult.commute mult.left_commute)
  have "net_value c div 2 ^ h = q * 2 ^ d + i"
    using assms(4) by (simp add: first h_def [symmetric])
  then have "x div 2 ^ h = q * 2 ^ d + i"
    using x(2) by (simp add: h_def)
  moreover have "x div 2 ^ (h + d) = (x div 2 ^ h) div 2 ^ d"
    by (simp add: power_add div_mult2_eq)
  moreover have "(q * 2 ^ d + i) div 2 ^ d = q"
    using assms(3) by (simp add: d_def)
  ultimately have "x div 2 ^ (h + d) = q" by simp
  then show "x \<in> addrs n"
    using x(1) by (simp add: addrs_def hd q_def)
qed

lemma subnet_wf:
  assumes "prefixlen n \<le> prefixlen c" "prefixlen c \<le> 32"
    and "i < 2 ^ (prefixlen c - prefixlen n)"
    and "net_value c = net_first n + 2 ^ (32 - prefixlen c) * i"
    and "net_first n + 2 ^ (32 - prefixlen n) \<le> 2 ^ 32"
  shows "wf_net c"
proof -
  define h where "h = 32 - prefixlen c"
  define d where "d = prefixlen c - prefixlen n"
  have hd: "32 - prefixlen n = h + d"
    using assms(1,2) by (simp add: h_def d_def)
  have "(2::nat) ^ h * i < 2 ^ h * 2 ^ d" using assms(3) by (simp add: d_def)
  then have "(2::nat) ^ h * i < 2 ^ (h + d)" by (simp add: power_add)
  then have "net_value c < net_first n + 2 ^ (32 - prefixlen n)"
    using assms(4) by (simp add: hd h_def [symmetric])
  with assms(2,5) show ?thesis by (simp add: wf_net_def)
qed

lemma net_first_aligned: "2 ^ (32 - prefixlen n) dvd net_value n \<Longrightarrow> net_first n = net_value n"
  by (simp add: net_first_def)

lemma addrs_cidr_set [simp]: "wf_net n \<Longrightarrow> ipset_addrs (IPSet [n]) = addrs n"
  by (simp add: ipset_addrs_IPSet)

lemma allocation_sound:
  assumes sel: "select_available sz reverse smallest (available_set target_block consumed) = Inr (Some ab)"
    and nxt: "next_cidr ab sz reverse = Inr c"
    and wfb: "wf_net (block_cidr target_block)"
    and wfc: "list_all wf_net consumed"
  shows "int (prefixlen c) = sz" "wf_net c" "net_first c = net_value c"
    "addrs c \<subseteq> (addrs (block_cidr target_block) - (\<Union>n\<in>set consumed. addrs n))
                \<union> ((\<Union>n\<in>set consumed. addrs n) - addrs (block_cidr target_block))"
proof -
  let ?avail = "available_set target_block consumed"
  have h: "height ?avail \<le> 32"
  proof -
    have "height ?avail \<le> max (height (IPSet [block_cidr target_block])) (height (IPSet consumed))"
      unfolding available_set_def Let_def by (rule height_ipset_xor)
    moreover have "height (IPSet [block_cidr target_block]) \<le> 32"
      using wfb by (simp add: height_IPSet)
    moreover have "height (IPSet consumed) \<le> 32"
      using wfc by (rule height_IPSet)
    ultimately show ?thesis by simp
  qed
  from select_available_mem [OF sel]
  have ab: "ab \<in> set (iter_cidrs ?avail)" and absz: "int (prefixlen ab) \<le> sz" by simp_all
  note abwf = iter_cidrs_wf [OF h ab]
  from nxt obtain subnets where sub: "subnet ab sz = Inr subnets" and ne: "subnets \<noteq> []"
    and c: "c = (if reverse then last subnets else hd subnets)"
    by (auto simp: next_cidr_def split: sum.splits if_splits)
  from ne c have cmem: "c \<in> set subnets" by (auto split: if_splits)
  from subnet_member [OF sub cmem abwf(1)] obtain i where
    len: "int (prefixlen c) = sz" and ple: "prefixlen ab \<le> prefixlen c" and c32: "prefixlen c \<le> 32"
    and i: "i < 2 ^ (prefixlen c - prefixlen ab)"
    and cv: "net_value c = net_first ab + 2 ^ (32 - prefixlen c) * i"
    by blast
  show "int (prefixlen c) = sz" by (rule len)
  have fab: "net_first ab = net_value ab"
    using abwf(2) by (rule net_first_aligned)
  show "wf_net c"
    using subnet_wf [OF ple c32 i cv] abwf(3) fab by simp
  have "2 ^ (32 - prefixlen c) dvd net_value ab"
  proof -
    have "32 - prefixlen ab = (32 - prefixlen c) + (prefixlen c - prefixlen ab)"
      using ple c32 by simp
    then have "(2::nat) ^ (32 - prefixlen c) dvd 2 ^ (32 - prefixlen ab)"
      by (metis dvd_triv_left power_add)
    then show ?thesis using abwf(2) by (rule dvd_trans)
  qed
  then have "2 ^ (32 - prefixlen c) dvd net_value c"
    using cv fab by simp
  then show "net_first c = net_value c" by (rule net_first_aligned)
  have "addrs c \<subseteq> addrs ab" by (rule subnet_addrs [OF ple c32 i cv])
  also have "addrs ab \<subseteq> ipset_addrs ?avail" by (rule iter_cidrs_sound [OF h ab])
  also have "ipset_addrs ?avail =
      (addrs (block_cidr target_block) - (\<Union>n\<in>set consumed. addrs n))
      \<union> ((\<Union>n\<in>set consumed. addrs n) - addrs (block_cidr target_block))"
    using wfb wfc by (simp add: available_set_def ipset_addrs_xor ipset_addrs_IPSet)
  finally show "addrs c \<subseteq> (addrs (block_cidr target_block) - (\<Union>n\<in>set consumed. addrs n))
                \<union> ((\<Union>n\<in>set consumed. addrs n) - addrs (block_cidr target_block))" .
qed

lemma create_block_reservation_Inr:
  assumes "fst (create_block_reservation lower space_nm block_nm req creator_id new_id now vnet_list st) = Inr r"
    and "cosmos_query_space lower space_nm st = target_space # others"
    and "find (\<lambda>x. lower (block_name x) = lower block_nm) (blocks target_space) = Some target_block"
  shows "\<exists>ab. select_available (req_size req) (reverse_search req) (smallest_cidr req)
                (available_set target_block (block_all_cidrs lower vnet_list target_block)) = Inr (Some ab)
              \<and> next_cidr ab (req_size req) (reverse_search req) = Inr (resv_cidr r)"
  using assms
  by (auto simp: create_block_reservation_def Let_def split: sum.splits option.splits)

lemma compact_node: "compact l \<Longrightarrow> compact r \<Longrightarrow> compact (node l r)"
  by (induction l r rule: node.induct) simp_all

lemma single_not_Empty: "single p k a \<noteq> Empty"
  by (cases p) simp_all

lemma compact_single: "compact (single p k a)"
  by (induction p arbitrary: k) (simp_all add: single_not_Empty)

lemma compact_ipset_or: "compact s \<Longrightarrow> compact t \<Longrightarrow> compact (ipset_or s t)"
  by (induction s t rule: ipset_or.induct) (simp_all add: compact_node)

lemma compact_ipset_and: "compact s \<Longrightarrow> compact t \<Longrightarrow> compact (ipset_and s t)"
  by (induction s t rule: ipset_and.induct) (simp_all add: compact_node)

lemma compact_ipset_xor: "compact s \<Longrightarrow> compact t \<Longrightarrow> compact (ipset_xor s t)"
  by (induction s t rule: ipset_xor.induct) (simp_all add: compact_node)

lemma compact_IPSet: "compact (IPSet ns)"
  by (induction ns) (simp_all add: IPSet_def compact_ipset_or compact_single cidr_set_def)

lemma bit_mod_less:
  fixes x :: nat
  assumes "i < k"
  shows "bit (x mod 2 ^ k) i = bit x i"
  using assms by (simp add: bit_take_bit_iff flip: take_bit_eq_mod)

lemma not_bit_mod_self: "\<not> bit ((y::nat) mod 2 ^ j) j"
  by (simp add: bit_take_bit_iff flip: take_bit_eq_mod)

lemma bit_mod_plus_self: "bit ((y::nat) mod 2 ^ j + 2 ^ j) j"
proof -
  have "(y mod 2 ^ j + 2 ^ j) div 2 ^ j = Suc 0"
    using div_add_self2 [of "2 ^ j" "y mod 2 ^ j"] by simp
  then show ?thesis by (simp add: bit_iff_odd)
qed

lemma isin_mod: "height t \<le> k \<Longrightarrow> isin t k (x mod 2 ^ k) = isin t k x"
proof (induction t arbitrary: k x)
  case (Node l r)
  then obtain j where k: "k = Suc j" by (cases k) auto
  have hl: "height l \<le> j" and hr: "height r \<le> j"
    using Node.prems k by simp_all
  have b: "bit (x mod 2 ^ Suc j) j = bit x j"
    by (rule bit_mod_less) simp
  have m: "(x mod 2 ^ Suc j) mod 2 ^ j = x mod 2 ^ j"
    by (simp add: mod_mod_cancel)
  have "isin l j (x mod 2 ^ Suc j) = isin l j x"
    using Node.IH(1) [OF hl, of "x mod 2 ^ Suc j"] Node.IH(1) [OF hl, of x] m by simp
  moreover have "isin r j (x mod 2 ^ Suc j) = isin r j x"
    using Node.IH(2) [OF hr, of "x mod 2 ^ Suc j"] Node.IH(2) [OF hr, of x] m by simp
  ultimately show ?case using b by (simp add: k del: power_Suc)
qed simp_all

lemma isin_mod_plus_self:
  assumes "height t \<le> j"
  shows "isin t j (y mod 2 ^ j + 2 ^ j) = isin t j y"
proof -
  have "isin t j (y mod 2 ^ j + 2 ^ j) = isin t j ((y mod 2 ^ j + 2 ^ j) mod 2 ^ j)"
    by (rule isin_mod [OF assms, symmetric])
  also have "(y mod 2 ^ j + 2 ^ j) mod 2 ^ j = y mod 2 ^ j"
    by simp
  also have "isin t j (y mod 2 ^ j) = isin t j y"
    by (rule isin_mod [OF assms])
  finally show ?thesis .
qed

lemma compact_Full_iff:
  assumes "compact t" "height t \<le> k"
  shows "(\<forall>x. isin t k x) = (t = Full)"
  using assms
proof (induction t arbitrary: k)
  case (Node l r)
  then obtain j where k: "k = Suc j" by (cases k) auto
  have hl: "height l \<le> j" and hr: "height r \<le> j"
    using Node.prems k by simp_all
  have cl: "compact l" and cr: "compact r" and nf: "l \<noteq> Full \<or> r \<noteq> Full"
    using Node.prems(1) by simp_all
  have "\<not> (\<forall>x. isin (Node l r) k x)"
  proof
    assume all: "\<forall>x. isin (Node l r) k x"
    have "isin l j y" for y
    proof -
      have nb: "\<not> bit (y mod 2 ^ j) j"
        by (rule not_bit_mod_self)
      from all have "isin (Node l r) (Suc j) (y mod 2 ^ j)" unfolding k by blast
      with nb have "isin l j (y mod 2 ^ j)" by simp
      then show ?thesis using isin_mod [OF hl] by simp
    qed
    then have lf: "l = Full" using Node.IH(1) [OF cl hl] by simp
    have "isin r j y" for y
    proof -
      have yb: "bit (y mod 2 ^ j + 2 ^ j) j"
        by (rule bit_mod_plus_self)
      from all have "isin (Node l r) (Suc j) (y mod 2 ^ j + 2 ^ j)" unfolding k by blast
      with yb have "isin r j (y mod 2 ^ j + 2 ^ j)" by simp
      then show ?thesis by (simp add: isin_mod_plus_self [OF hr])
    qed
    then have "r = Full" using Node.IH(2) [OF cr hr] by simp
    with lf nf show False by simp
  qed
  then show ?case by simp
qed auto

lemma compact_Empty_iff:
  assumes "compact t" "height t \<le> k"
  shows "(\<forall>x. \<not> isin t k x) = (t = Empty)"
  using assms
proof (induction t arbitrary: k)
  case (Node l r)
  then obtain j where k: "k = Suc j" by (cases k) auto
  have hl: "height l \<le> j" and hr: "height r \<le> j"
    using Node.prems k by simp_all
  have cl: "compact l" and cr: "compact r" and ne: "l \<noteq> Empty \<or> r \<noteq> Empty"
    using Node.prems(1) by simp_all
  have "\<not> (\<forall>x. \<not> isin (Node l r) k x)"
  proof
    assume none: "\<forall>x. \<not> isin (Node l r) k x"
    have "\<not> isin l j y" for y
    proof -
      have nb: "\<not> bit (y mod 2 ^ j) j"
        by (rule not_bit_mod_self)
      from none have "\<not> isin (Node l r) (Suc j) (y mod 2 ^ j)" unfolding k by blast
      with nb have "\<not> isin l j (y mod 2 ^ j)" by simp
      then show ?thesis using isin_mod [OF hl] by simp
    qed
    then have le: "l = Empty" using Node.IH(1) [OF cl hl] by simp
    have "\<not> isin r j y" for y
    proof -
      have yb: "bit (y mod 2 ^ j + 2 ^ j) j"
        by (rule bit_mod_plus_self)
      from none have "\<not> isin (Node l r) (Suc j) (y mod 2 ^ j + 2 ^ j)" unfolding k by blast
      with yb have "\<not> isin r j (y mod 2 ^ j + 2 ^ j)" by simp
      then show ?thesis by (simp add: isin_mod_plus_self [OF hr])
    qed
    then have "r = Empty" using Node.IH(2) [OF cr hr] by simp
    with le ne show False by simp
  qed
  then show ?case by simp
qed auto

lemma ipset_bool_iff_addrs:
  assumes "compact s" "height s \<le> 32"
  shows "ipset_bool s = (ipset_addrs s \<noteq> {})"
proof -
  have "(ipset_addrs s = {}) = (\<forall>x. \<not> isin s 32 x)"
  proof
    assume e: "ipset_addrs s = {}"
    show "\<forall>x. \<not> isin s 32 x"
    proof
      fix x
      have "x mod 2 ^ 32 < (2::nat) ^ 32" by simp
      with e have "\<not> isin s 32 (x mod 2 ^ 32)" by (auto simp: ipset_addrs_def)
      then show "\<not> isin s 32 x" using isin_mod [OF assms(2)] by simp
    qed
  next
    assume "\<forall>x. \<not> isin s 32 x"
    then show "ipset_addrs s = {}" by (simp add: ipset_addrs_def)
  qed
  then show ?thesis
    using compact_Empty_iff [OF assms] by (simp add: ipset_bool_def)
qed

lemma even_half_eq: "even (a::nat) \<Longrightarrow> even c \<Longrightarrow> a div 2 = c div 2 \<Longrightarrow> a = c"
  by presburger

lemma odd_half_eq: "odd (a::nat) \<Longrightarrow> even c \<Longrightarrow> a div 2 = c div 2 \<Longrightarrow> a = Suc c"
  by presburger

lemma iter_cidrs_at_complete:
  assumes "height t \<le> k" "2 ^ k dvd b" "k \<le> 32"
    and "isin t k x" "x div 2 ^ k = b div 2 ^ k" "x < 2 ^ 32"
  shows "\<exists>n\<in>set (iter_cidrs_at t k b). x \<in> addrs n"
  using assms
proof (induction t arbitrary: k b)
  case Empty
  then show ?case by simp
next
  case Full
  then show ?case by (simp add: addrs_def)
next
  case (Node l r)
  then obtain j where k: "k = Suc j" by (cases k) auto
  have ev: "even (b div 2 ^ j)"
    using Node.prems(2) k even_div_of_dvd by blast
  have dj: "2 ^ j dvd b"
    using Node.prems(2) k by (metis dvd_mult_right power_Suc)
  have hl: "height l \<le> j" and hr: "height r \<le> j" and j32: "j \<le> 32"
    using Node.prems(1,3) k by simp_all
  have halve: "y div (2 * 2 ^ j) = (y div 2 ^ j) div 2" for y :: nat
    by (metis div_mult2_eq mult.commute)
  have half: "(x div 2 ^ j) div 2 = (b div 2 ^ j) div 2"
    using Node.prems(5) by (simp add: k halve)
  show ?case
  proof (cases "bit x j")
    case False
    then have ex: "even (x div 2 ^ j)" by (simp add: bit_iff_odd)
    have e: "x div 2 ^ j = b div 2 ^ j"
      by (rule even_half_eq [OF ex ev half])
    from False Node.prems(4) have "isin l j x" by (simp add: k)
    from Node.IH(1) [OF hl dj j32 this e Node.prems(6)]
    show ?thesis by (auto simp: k)
  next
    case True
    then have ox: "odd (x div 2 ^ j)" by (simp add: bit_iff_odd)
    have "x div 2 ^ j = Suc (b div 2 ^ j)"
      by (rule odd_half_eq [OF ox ev half])
    moreover have "(b + 2 ^ j) div 2 ^ j = Suc (b div 2 ^ j)"
      using div_add_self2 [of "2 ^ j" b] by simp
    ultimately have e: "x div 2 ^ j = (b + 2 ^ j) div 2 ^ j" by simp
    have dj': "2 ^ j dvd b + 2 ^ j" using dj by simp
    from True Node.prems(4) have "isin r j x" by (simp add: k)
    from Node.IH(2) [OF hr dj' j32 this e Node.prems(6)]
    show ?thesis by (auto simp: k)
  qed
qed

lemma ipset_addrs_iter_cidrs:
  assumes "height s \<le> 32"
  shows "ipset_addrs s = (\<Union>n\<in>set (iter_cidrs s). addrs n)"
proof
  show "ipset_addrs s \<subseteq> (\<Union>n\<in>set (iter_cidrs s). addrs n)"
  proof
    fix x assume "x \<in> ipset_addrs s"
    then have x: "x < 2 ^ 32" "isin s 32 x" by (simp_all add: ipset_addrs_def)
    then have "x div 2 ^ 32 = 0 div 2 ^ 32" by simp
    from iter_cidrs_at_complete [OF assms _ _ x(2) this x(1)]
    show "x \<in> (\<Union>n\<in>set (iter_cidrs s). addrs n)"
      by (simp add: iter_cidrs_def)
  qed
  show "(\<Union>n\<in>set (iter_cidrs s). addrs n) \<subseteq> ipset_addrs s"
    using iter_cidrs_sound [OF assms] by blast
qed

lemma iter_cidrs_at_range:
  assumes "height t \<le> k" "k \<le> 32" "n \<in> set (iter_cidrs_at t k b)"
  shows "b \<le> net_value n \<and> net_value n + net_size n \<le> b + 2 ^ k"
  using assms
proof (induction t arbitrary: k b)
  case Empty
  then show ?case by simp
next
  case Full
  then show ?case by (auto simp: net_size_def)
next
  case (Node l r)
  then obtain j where k: "k = Suc j" by (cases k) auto
  have hl: "height l \<le> j" and hr: "height r \<le> j" and j32: "j \<le> 32"
    using Node.prems(1,2) k by simp_all
  from Node.prems(3) k
  consider (L) "n \<in> set (iter_cidrs_at l j b)" | (R) "n \<in> set (iter_cidrs_at r j (b + 2 ^ j))"
    by auto
  then show ?case
  proof cases
    case L
    from Node.IH(1) [OF hl j32 L] show ?thesis by (simp add: k)
  next
    case R
    from Node.IH(2) [OF hr j32 R] show ?thesis by (simp add: k)
  qed
qed

lemma iter_cidrs_at_ascending:
  assumes "height t \<le> k" "k \<le> 32"
  shows "sorted_wrt (\<lambda>m n. net_value m + net_size m \<le> net_value n) (iter_cidrs_at t k b)"
  using assms
proof (induction t arbitrary: k b)
  case (Node l r)
  then obtain j where k: "k = Suc j" by (cases k) auto
  have hl: "height l \<le> j" and hr: "height r \<le> j" and j32: "j \<le> 32"
    using Node.prems k by simp_all
  have "net_value m + net_size m \<le> net_value n"
    if "m \<in> set (iter_cidrs_at l j b)" "n \<in> set (iter_cidrs_at r j (b + 2 ^ j))" for m n
    using iter_cidrs_at_range [OF hl j32 that(1)] iter_cidrs_at_range [OF hr j32 that(2)]
    by simp
  then show ?case
    using Node.IH(1) [OF hl j32] Node.IH(2) [OF hr j32]
    by (simp add: k sorted_wrt_append)
qed simp_all

lemma iter_cidrs_ascending:
  "height s \<le> 32 \<Longrightarrow>
     sorted_wrt (\<lambda>m n. net_value m + net_size m \<le> net_value n) (iter_cidrs s)"
  by (simp add: iter_cidrs_def iter_cidrs_at_ascending)

lemma compact_unique:
  assumes "compact s" "compact t" "height s \<le> k" "height t \<le> k"
    and "\<forall>x. isin s k x = isin t k x"
  shows "s = t"
  using assms
proof (induction s arbitrary: t k)
  case Empty
  then have "\<forall>x. \<not> isin t k x" by simp
  then show ?case using compact_Empty_iff [OF Empty.prems(2,4)] by simp
next
  case Full
  then have "\<forall>x. isin t k x" by simp
  then show ?case using compact_Full_iff [OF Full.prems(2,4)] by simp
next
  case (Node l r)
  show ?case
  proof (cases t)
    case Empty
    then have "\<forall>x. \<not> isin (ipset.Node l r) k x" using Node.prems(5) by simp
    then have "ipset.Node l r = ipset.Empty" using compact_Empty_iff [OF Node.prems(1,3)] by blast
    then show ?thesis by simp
  next
    case Full
    then have "\<forall>x. isin (ipset.Node l r) k x" using Node.prems(5) by simp
    then have "ipset.Node l r = ipset.Full" using compact_Full_iff [OF Node.prems(1,3)] by blast
    then show ?thesis by simp
  next
    case (Node l' r')
    from Node.prems(3) obtain j where k: "k = Suc j" by (cases k) auto
    have hl: "height l \<le> j" and hr: "height r \<le> j"
      using Node.prems(3) k by simp_all
    have hl': "height l' \<le> j" and hr': "height r' \<le> j"
      using Node.prems(4) k Node by simp_all
    have eq: "isin (ipset.Node l r) (Suc j) x = isin (ipset.Node l' r') (Suc j) x" for x
      using Node.prems(5) k Node by simp
    have "isin l j y = isin l' j y" for y
    proof -
      have "isin l j (y mod 2 ^ j) = isin l' j (y mod 2 ^ j)"
        using eq [of "y mod 2 ^ j"] not_bit_mod_self [of y j] by simp
      then show ?thesis using isin_mod [OF hl] isin_mod [OF hl'] by simp
    qed
    then have 1: "l = l'"
      using Node.IH(1) [of l' j] Node.prems(1,2) Node hl hl' by simp
    have "isin r j y = isin r' j y" for y
    proof -
      have "isin r j (y mod 2 ^ j + 2 ^ j) = isin r' j (y mod 2 ^ j + 2 ^ j)"
        using eq [of "y mod 2 ^ j + 2 ^ j"] bit_mod_plus_self [of y j] by simp
      then show ?thesis
        by (simp add: isin_mod_plus_self [OF hr] isin_mod_plus_self [OF hr'])
    qed
    then have 2: "r = r'"
      using Node.IH(2) [of r' j] Node.prems(1,2) Node hr hr' by simp
    from 1 2 Node show ?thesis by simp
  qed
qed

lemma ipset_addrs_unique:
  assumes "compact s" "compact t" "height s \<le> 32" "height t \<le> 32"
    and "ipset_addrs s = ipset_addrs t"
  shows "s = t"
proof -
  have "isin s 32 x = isin t 32 x" for x
  proof -
    have lt: "x mod 2 ^ 32 < (2::nat) ^ 32" by simp
    have "(x mod 2 ^ 32 \<in> ipset_addrs s) = (x mod 2 ^ 32 \<in> ipset_addrs t)"
      using assms(5) by simp
    then have "isin s 32 (x mod 2 ^ 32) = isin t 32 (x mod 2 ^ 32)"
      unfolding ipset_addrs_def mem_Collect_eq using lt by blast
    then show ?thesis using isin_mod [OF assms(3)] isin_mod [OF assms(4)] by simp
  qed
  then show ?thesis using compact_unique [OF assms(1-4)] by simp
qed

lemma addrs_interval:
  assumes "wf_net n"
  shows "addrs n = {net_first n .. net_last n}"
proof -
  define h where "h = 32 - prefixlen n"
  define q where "q = net_value n div 2 ^ h"
  have h32: "h + prefixlen n = 32"
    using assms by (simp add: h_def wf_net_def)
  have "net_value n < 2 ^ prefixlen n * 2 ^ h"
    using assms h32 by (metis wf_net_def power_add add.commute)
  then have "q < 2 ^ prefixlen n"
    by (simp add: q_def less_mult_imp_div_less)
  then have "Suc q \<le> 2 ^ prefixlen n" by simp
  then have "Suc q * 2 ^ h \<le> 2 ^ prefixlen n * 2 ^ h"
    by (rule mult_le_mono1)
  also have "\<dots> = 2 ^ 32"
    using h32 by (metis power_add add.commute)
  finally have top: "q * 2 ^ h + 2 ^ h \<le> 2 ^ 32" by simp
  have iff: "(x div 2 ^ h = q) = (q * 2 ^ h \<le> x \<and> x < q * 2 ^ h + 2 ^ h)" for x :: nat
  proof
    assume "x div 2 ^ h = q"
    then have "q * 2 ^ h \<le> x" "x < Suc q * 2 ^ h"
      using div_times_less_eq_dividend [of x "2 ^ h"] dividend_less_div_times [of "2 ^ h" x]
      by (simp_all add: mult.commute)
    then show "q * 2 ^ h \<le> x \<and> x < q * 2 ^ h + 2 ^ h" by simp
  next
    assume "q * 2 ^ h \<le> x \<and> x < q * 2 ^ h + 2 ^ h"
    then show "x div 2 ^ h = q"
      by (intro div_nat_eqI) (simp_all add: mult.commute)
  qed
  have lst: "(x \<le> q * 2 ^ h + 2 ^ h - 1) = (x < q * 2 ^ h + 2 ^ h)" for x :: nat
  proof -
    have "0 < (2::nat) ^ h" by simp
    then show ?thesis by linarith
  qed
  show ?thesis
  proof (rule set_eqI)
    fix x
    show "(x \<in> addrs n) = (x \<in> {net_first n .. net_last n})"
      using iff [of x] top lst [of x]
      by (auto simp: addrs_def net_first_def net_last_def net_size_def h_def [symmetric] q_def [symmetric])
  qed
qed

section \<open>Properties of the routers\<close>

lemmas demo_eval = demo_block_def demo_space_def demo_resv_def

lemma exhausted_raises:
  assumes "cosmos_query_space lower space_nm st = target_space # others"
    and "find (\<lambda>x. lower (block_name x) = lower block_nm) (blocks target_space) = Some target_block"
    and "filter (\<lambda>x. int (prefixlen x) \<le> req_size req)
           (iter_cidrs (available_set target_block (block_all_cidrs lower vnet_list target_block))) = []"
  shows "create_block_reservation lower space_nm block_nm req creator_id new_id now vnet_list st
         = (Inl (if smallest_cidr req then ValueError
                 else HTTPException 500 ''Network of requested size unavailable in target block.''), st)"
proof -
  let ?avail = "available_set target_block (block_all_cidrs lower vnet_list target_block)"
  have none: "\<not> (\<exists>x\<in>set (iter_cidrs ?avail). int (prefixlen x) \<le> req_size req)"
    using assms(3) by (simp add: filter_empty_conv)
  have r: "filter (\<lambda>x. int (prefixlen x) \<le> req_size req) (rev (iter_cidrs ?avail)) = []"
    using none by (simp add: filter_empty_conv)
  have f1: "find (\<lambda>net. int (prefixlen net) \<le> req_size req) (iter_cidrs ?avail) = None"
    using none by (simp add: find_None_iff)
  have f2: "find (\<lambda>net. int (prefixlen net) \<le> req_size req) (rev (iter_cidrs ?avail)) = None"
    using none by (simp add: find_None_iff)
  have "select_available (req_size req) (reverse_search req) (smallest_cidr req) ?avail
        = (if smallest_cidr req then Inl ValueError else Inr None)"
    using assms(3) r f1 f2 by (simp add: select_available_def py_max_def)
  then show ?thesis
    using assms(1,2) by (simp add: create_block_reservation_def)
qed


lemma index_of_None: "index_of P xs = None \<longleftrightarrow> (\<forall>x\<in>set xs. \<not> P x)"
  by (induction xs) auto

lemma blocks_disjoint_snoc:
  "blocks_disjoint (bs @ [n]) =
     (blocks_disjoint bs \<and> (\<forall>b\<in>set bs. addrs (block_cidr b) \<inter> addrs (block_cidr n) = {}))"
  by (induction bs) auto

lemma store_disjoint_replace:
  "store_disjoint st \<Longrightarrow> blocks_disjoint (blocks new) \<Longrightarrow> store_disjoint (cosmos_replace old new st)"
  by (auto simp: store_disjoint_def cosmos_replace_def)

lemma create_block_disjoint:
  assumes "\<not> ipset_bool (ipset_and (IPSet [c]) (IPSet (map block_cidr bs)))"
    and "wf_net c" "list_all wf_net (map block_cidr bs)" "b \<in> set bs"
  shows "addrs c \<inter> addrs (block_cidr b) = {}"
proof -
  have "ipset_addrs (ipset_and (IPSet [c]) (IPSet (map block_cidr bs))) = {}"
    using assms(1) by (rule not_ipset_bool_addrs)
  then have "addrs c \<inter> (\<Union>n\<in>set (map block_cidr bs). addrs n) = {}"
    using assms(2,3) by (simp add: ipset_addrs_and ipset_addrs_IPSet)
  then show ?thesis using assms(4) by auto
qed

lemma update_first_cidrs:
  assumes "\<And>b. block_cidr (f b) = block_cidr b"
  shows "map block_cidr (update_first P f bs) = map block_cidr bs"
  by (induction bs) (simp_all add: assms)

lemma blocks_disjoint_cidrs:
  "map block_cidr bs = map block_cidr cs \<Longrightarrow> blocks_disjoint bs = blocks_disjoint cs"
proof (induction bs arbitrary: cs)
  case Nil
  then show ?case by simp
next
  case (Cons b bs)
  then obtain c cs' where cs: "cs = c # cs'" by (cases cs) auto
  with Cons.prems have hd: "block_cidr b = block_cidr c"
    and tl: "map block_cidr bs = map block_cidr cs'" by simp_all
  have "block_cidr ` set bs = block_cidr ` set cs'"
    using tl by (metis list.set_map)
  then have "(\<forall>x\<in>set bs. addrs (block_cidr b) \<inter> addrs (block_cidr x) = {})
           = (\<forall>x\<in>set cs'. addrs (block_cidr c) \<inter> addrs (block_cidr x) = {})"
    unfolding hd by (metis (no_types, lifting) image_iff)
  with Cons.IH [OF tl] show ?case by (simp add: cs)
qed

lemma blocks_disjoint_update_first:
  assumes "\<And>b. block_cidr (f b) = block_cidr b"
  shows "blocks_disjoint (update_first P f bs) = blocks_disjoint bs"
  by (rule blocks_disjoint_cidrs) (rule update_first_cidrs [OF assms])

lemma set_del_at: "set (del_at i xs) \<subseteq> set xs"
  unfolding del_at_def by (metis Un_least set_append set_drop_subset set_take_subset)

lemma blocks_disjoint_del_at: "blocks_disjoint bs \<Longrightarrow> blocks_disjoint (del_at i bs)"
proof (induction bs arbitrary: i)
  case Nil
  then show ?case by (simp add: del_at_def)
next
  case (Cons b bs)
  show ?case
  proof (cases i)
    case 0
    then show ?thesis using Cons.prems by (simp add: del_at_def)
  next
    case (Suc j)
    have d: "del_at (Suc j) (b # bs) = b # del_at j bs"
      by (simp add: del_at_def)
    have "blocks_disjoint (del_at j bs)"
      using Cons.IH Cons.prems by simp
    moreover have "\<forall>c\<in>set (del_at j bs). addrs (block_cidr b) \<inter> addrs (block_cidr c) = {}"
      using Cons.prems set_del_at [of j bs] by auto
    ultimately show ?thesis by (simp add: Suc d)
  qed
qed

lemma query_space_mem: "cosmos_query_space lower name st = sp # others \<Longrightarrow> sp \<in> set st"
  by (metis cosmos_query_space_def filter_is_subset list.set_intros(1) subsetD)

lemma store_disjoint_mem: "store_disjoint st \<Longrightarrow> sp \<in> set st \<Longrightarrow> blocks_disjoint (blocks sp)"
  by (simp add: store_disjoint_def)

lemma blocks_fold_apply_patch_item: "blocks (fold apply_patch_item ps sp) = blocks sp"
  by (induction ps arbitrary: sp) (simp_all add: apply_patch_item_def)

lemma store_disjoint_create_block_reservation:
  assumes "store_disjoint st"
  shows "store_disjoint (snd (create_block_reservation lower space_nm block_nm req creator_id new_id now vnet_list st))"
proof (cases "cosmos_query_space lower space_nm st")
  case Nil
  then show ?thesis using assms by (simp add: create_block_reservation_def)
next
  case (Cons sp others)
  have d: "blocks_disjoint (blocks sp)"
    using assms Cons by (blast intro: store_disjoint_mem query_space_mem)
  show ?thesis
    using assms d Cons
    by (auto simp: create_block_reservation_def Let_def blocks_disjoint_update_first
        intro!: store_disjoint_replace split: option.splits sum.splits)
qed

lemma store_disjoint_create_multi_block_reservation:
  assumes "store_disjoint st"
  shows "store_disjoint (snd (create_multi_block_reservation lower space_nm req creator_id new_id now vnet_list st))"
proof (cases "cosmos_query_space lower space_nm st")
  case Nil
  then show ?thesis using assms by (simp add: create_multi_block_reservation_def)
next
  case (Cons sp others)
  have d: "blocks_disjoint (blocks sp)"
    using assms Cons by (blast intro: store_disjoint_mem query_space_mem)
  show ?thesis
    using assms d Cons
    by (auto simp: create_multi_block_reservation_def Let_def blocks_disjoint_update_first
        intro!: store_disjoint_replace split: option.splits sum.splits prod.splits)
qed

lemma store_disjoint_delete_block_reservations:
  assumes "store_disjoint st"
  shows "store_disjoint (snd (delete_block_reservations lower space_nm block_nm req user_name is_admin st))"
proof (cases "cosmos_query_space lower space_nm st")
  case Nil
  then show ?thesis using assms by (simp add: delete_block_reservations_def)
next
  case (Cons sp others)
  have d: "blocks_disjoint (blocks sp)"
    using assms Cons by (blast intro: store_disjoint_mem query_space_mem)
  show ?thesis
    using assms d Cons
    by (auto simp: delete_block_reservations_def Let_def blocks_disjoint_update_first
        intro!: store_disjoint_replace split: option.splits sum.splits)
qed

lemma store_disjoint_create_block_vnet:
  assumes "store_disjoint st"
  shows "store_disjoint (snd (create_block_vnet lower space_nm block_nm new_vnet vnet_list is_admin st))"
proof (cases "cosmos_query_space lower space_nm st")
  case Nil
  then show ?thesis using assms by (simp add: create_block_vnet_def)
next
  case (Cons sp others)
  have d: "blocks_disjoint (blocks sp)"
    using assms Cons by (blast intro: store_disjoint_mem query_space_mem)
  have u: "blocks_disjoint (update_first P (\<lambda>b. tb\<lparr>vnets := vs\<rparr>) (blocks sp))"
    if "find P (blocks sp) = Some tb" for P tb vs
  proof -
    have "update_first P (\<lambda>b. tb\<lparr>vnets := vs\<rparr>) bs = update_first P (\<lambda>b. b\<lparr>vnets := vs\<rparr>) bs"
      if "find P bs = Some tb" for bs
      using that by (induction bs) (auto split: if_splits)
    then show ?thesis using that d by (simp add: blocks_disjoint_update_first)
  qed
  show ?thesis
    using assms Cons u
    by (auto simp: create_block_vnet_def Let_def
        intro!: store_disjoint_replace split: option.splits sum.splits)
qed

lemma store_disjoint_delete_block:
  assumes "store_disjoint st"
  shows "store_disjoint (snd (delete_block lower space_nm block_nm force is_admin st))"
proof (cases "cosmos_query_space lower space_nm st")
  case Nil
  then show ?thesis using assms by (simp add: delete_block_def)
next
  case (Cons sp others)
  have d: "blocks_disjoint (blocks sp)"
    using assms Cons by (blast intro: store_disjoint_mem query_space_mem)
  show ?thesis
    using assms d Cons
    by (auto simp: delete_block_def blocks_disjoint_del_at
        intro!: store_disjoint_replace split: option.splits)
qed

lemma store_disjoint_update_space:
  assumes "store_disjoint st"
  shows "store_disjoint (snd (update_space lower space_nm updates is_admin st))"
proof (cases "cosmos_query_space lower space_nm st")
  case Nil
  then show ?thesis using assms by (simp add: update_space_def)
next
  case (Cons sp others)
  have d: "blocks_disjoint (blocks sp)"
    using assms Cons by (blast intro: store_disjoint_mem query_space_mem)
  show ?thesis
    using assms d Cons
    by (auto simp: update_space_def Let_def blocks_fold_apply_patch_item
        intro!: store_disjoint_replace split: sum.splits)
qed

lemma store_disjoint_create_space:
  assumes "store_disjoint st"
  shows "store_disjoint (snd (create_space lower space_rq new_id is_admin st))"
  using assms
  by (auto simp: create_space_def cosmos_upsert_def store_disjoint_def Let_def split: option.splits)

lemma scan_blocks_found:
  "scan_blocks lower vnet_list bs sz reverse smallest names (Some ab, nm, tb) = Inr (Some ab, nm, tb)"
  by (induction names) simp_all

lemma scan_blocks_first_fit:
  assumes "scan_blocks lower vnet_list bs sz reverse smallest names (None, nm0, tb0) = Inr (Some ab, nm, tb)"
  shows "\<exists>before name after found.
           names = before @ name # after \<and> nm = Some name \<and> tb = Some found
           \<and> find (\<lambda>x. lower (block_name x) = lower name) bs = Some found
           \<and> select_available sz reverse smallest
                 (available_set found (block_all_cidrs lower vnet_list found)) = Inr (Some ab)
           \<and> (\<forall>m\<in>set before. \<exists>b. find (\<lambda>x. lower (block_name x) = lower m) bs = Some b
                 \<and> select_available sz reverse smallest
                       (available_set b (block_all_cidrs lower vnet_list b)) = Inr None)"
  using assms
proof (induction names arbitrary: nm0 tb0)
  case Nil
  then show ?case by simp
next
  case (Cons n names)
  from Cons.prems obtain found where
    f: "find (\<lambda>x. lower (block_name x) = lower n) bs = Some found"
    by (auto split: option.splits)
  from Cons.prems f obtain chosen where
    s: "select_available sz reverse smallest
          (available_set found (block_all_cidrs lower vnet_list found)) = Inr chosen"
    by (auto split: sum.splits)
  show ?case
  proof (cases chosen)
    case None
    with Cons.prems f s have
      "scan_blocks lower vnet_list bs sz reverse smallest names (None, None, Some found)
         = Inr (Some ab, nm, tb)"
      by simp
    from Cons.IH [OF this] obtain before name after fb where
      r: "names = before @ name # after" "nm = Some name" "tb = Some fb"
         "find (\<lambda>x. lower (block_name x) = lower name) bs = Some fb"
         "select_available sz reverse smallest
                 (available_set fb (block_all_cidrs lower vnet_list fb)) = Inr (Some ab)"
         "\<forall>m\<in>set before. \<exists>b. find (\<lambda>x. lower (block_name x) = lower m) bs = Some b
                 \<and> select_available sz reverse smallest
                       (available_set b (block_all_cidrs lower vnet_list b)) = Inr None"
      by blast
    have "n # names = (n # before) @ name # after" using r(1) by simp
    moreover have "\<forall>m\<in>set (n # before). \<exists>b. find (\<lambda>x. lower (block_name x) = lower m) bs = Some b
                 \<and> select_available sz reverse smallest
                       (available_set b (block_all_cidrs lower vnet_list b)) = Inr None"
      using r(6) f s None by simp
    ultimately show ?thesis using r(2-5) by blast
  next
    case (Some c)
    with Cons.prems f s have "ab = c" "nm = Some n" "tb = Some found"
      by (simp_all add: scan_blocks_found)
    then have "n # names = [] @ n # names \<and> nm = Some n \<and> tb = Some found
           \<and> find (\<lambda>x. lower (block_name x) = lower n) bs = Some found
           \<and> select_available sz reverse smallest
                 (available_set found (block_all_cidrs lower vnet_list found)) = Inr (Some ab)
           \<and> (\<forall>m\<in>set []. \<exists>b. find (\<lambda>x. lower (block_name x) = lower m) bs = Some b
                 \<and> select_available sz reverse smallest
                       (available_set b (block_all_cidrs lower vnet_list b)) = Inr None)"
      using f s Some by simp
    then show ?thesis by blast
  qed
qed

lemma update_first_names:
  assumes "\<And>b. block_name (f b) = block_name b"
  shows "map block_name (update_first P f bs) = map block_name bs"
  by (induction bs) (simp_all add: assms)

lemma update_first_const:
  "find P bs = Some tb \<Longrightarrow> update_first P (\<lambda>b. g tb) bs = update_first P g bs"
  by (induction bs) (auto split: if_splits)

lemma block_edit_same:
  assumes "cosmos_query_space lower name st = sp # others"
    and "\<And>b. block_name (f b) = block_name b" "\<And>b. block_cidr (f b) = block_cidr b"
  shows "block_edit st (cosmos_replace sp (sp\<lparr>blocks := update_first P f (blocks sp)\<rparr>) st)"
proof -
  have "sp \<in> set st" using assms(1) by (rule query_space_mem)
  then show ?thesis
    unfolding block_edit_def
    using update_first_names [of f P "blocks sp", OF assms(2)]
          update_first_cidrs [of f P "blocks sp", OF assms(3)]
    by (intro disjI2 exI [of _ sp] exI [of _ "sp\<lparr>blocks := update_first P f (blocks sp)\<rparr>"]) simp
qed

lemma block_edit_create_block_reservation:
  "block_edit st (snd (create_block_reservation lower space_nm block_nm req creator_id new_id now vnet_list st))"
proof (cases "cosmos_query_space lower space_nm st")
  case Nil
  then show ?thesis by (simp add: create_block_reservation_def block_edit_def)
next
  case (Cons sp others)
  have e: "block_edit st (cosmos_replace sp (sp\<lparr>blocks := update_first P (\<lambda>b. b\<lparr>resv := resv b @ [r]\<rparr>) (blocks sp)\<rparr>) st)" for P r
    by (rule block_edit_same [OF Cons]) simp_all
  have n: "block_edit st st" by (simp add: block_edit_def)
  show ?thesis
    using Cons e n
    by (auto simp: create_block_reservation_def Let_def split: option.splits sum.splits)
qed

lemma block_edit_create_multi_block_reservation:
  "block_edit st (snd (create_multi_block_reservation lower space_nm req creator_id new_id now vnet_list st))"
proof (cases "cosmos_query_space lower space_nm st")
  case Nil
  then show ?thesis by (simp add: create_multi_block_reservation_def block_edit_def)
next
  case (Cons sp others)
  have e: "block_edit st (cosmos_replace sp (sp\<lparr>blocks := update_first P (\<lambda>b. b\<lparr>resv := resv b @ [r]\<rparr>) (blocks sp)\<rparr>) st)" for P r
    by (rule block_edit_same [OF Cons]) simp_all
  have n: "block_edit st st" by (simp add: block_edit_def)
  show ?thesis
    using Cons e n
    by (auto simp: create_multi_block_reservation_def Let_def split: option.splits sum.splits prod.splits)
qed

lemma block_edit_delete_block_reservations:
  "block_edit st (snd (delete_block_reservations lower space_nm block_nm req user_name is_admin st))"
proof (cases "cosmos_query_space lower space_nm st")
  case Nil
  then show ?thesis by (simp add: delete_block_reservations_def block_edit_def)
next
  case (Cons sp others)
  have e: "block_edit st (cosmos_replace sp (sp\<lparr>blocks := update_first P (\<lambda>b. b\<lparr>resv := rs\<rparr>) (blocks sp)\<rparr>) st)" for P rs
    by (rule block_edit_same [OF Cons]) simp_all
  have n: "block_edit st st" by (simp add: block_edit_def)
  show ?thesis
    using Cons e n
    by (auto simp: delete_block_reservations_def Let_def split: option.splits sum.splits)
qed

lemma block_edit_delete_block_vnets:
  "block_edit st (snd (delete_block_vnets lower space_nm block_nm req is_admin st))"
proof (cases "cosmos_query_space lower space_nm st")
  case Nil
  then show ?thesis by (simp add: delete_block_vnets_def block_edit_def)
next
  case (Cons sp others)
  have e: "block_edit st (cosmos_replace sp (sp\<lparr>blocks := update_first P (\<lambda>b. b\<lparr>vnets := vs\<rparr>) (blocks sp)\<rparr>) st)" for P vs
    by (rule block_edit_same [OF Cons]) simp_all
  have n: "block_edit st st" by (simp add: block_edit_def)
  show ?thesis
    using Cons e n
    by (auto simp: delete_block_vnets_def Let_def split: option.splits sum.splits)
qed

lemma block_edit_update_block_vnets:
  "block_edit st (snd (update_block_vnets lower space_nm block_nm vnet_ids vnet_list is_admin st))"
proof (cases "cosmos_query_space lower space_nm st")
  case Nil
  then show ?thesis by (simp add: update_block_vnets_def block_edit_def)
next
  case (Cons sp others)
  have e: "block_edit st (cosmos_replace sp (sp\<lparr>blocks := update_first P (\<lambda>b. b\<lparr>vnets := vs\<rparr>) (blocks sp)\<rparr>) st)" for P vs
    by (rule block_edit_same [OF Cons]) simp_all
  have n: "block_edit st st" by (simp add: block_edit_def)
  show ?thesis
    using Cons e n
    by (auto simp: update_block_vnets_def Let_def split: option.splits sum.splits prod.splits)
qed

lemma block_edit_create_block_vnet:
  "block_edit st (snd (create_block_vnet lower space_nm block_nm new_vnet vnet_list is_admin st))"
proof (cases "cosmos_query_space lower space_nm st")
  case Nil
  then show ?thesis by (simp add: create_block_vnet_def block_edit_def)
next
  case (Cons sp others)
  have e: "block_edit st (cosmos_replace sp (sp\<lparr>blocks := update_first P (\<lambda>b. tb\<lparr>vnets := vs\<rparr>) (blocks sp)\<rparr>) st)"
    if "find P (blocks sp) = Some tb" for P tb vs
  proof -
    have "update_first P (\<lambda>b. tb\<lparr>vnets := vs\<rparr>) (blocks sp) = update_first P (\<lambda>b. b\<lparr>vnets := vs\<rparr>) (blocks sp)"
      using update_first_const [OF that, of "\<lambda>b. b\<lparr>vnets := vs\<rparr>"] by simp
    moreover have "block_edit st (cosmos_replace sp (sp\<lparr>blocks := update_first P (\<lambda>b. b\<lparr>vnets := vs\<rparr>) (blocks sp)\<rparr>) st)"
      by (rule block_edit_same [OF Cons]) simp_all
    ultimately show ?thesis by simp
  qed
  have n: "block_edit st st" by (simp add: block_edit_def)
  show ?thesis
    using Cons e n
    by (auto simp: create_block_vnet_def Let_def split: option.splits sum.splits)
qed

lemma block_edit_delete_block:
  "block_edit st (snd (delete_block lower space_nm block_nm force is_admin st))"
proof (cases "cosmos_query_space lower space_nm st")
  case Nil
  then show ?thesis by (simp add: delete_block_def block_edit_def)
next
  case (Cons sp others)
  have "sp \<in> set st" using Cons by (rule query_space_mem)
  then have e: "block_edit st (cosmos_replace sp (sp\<lparr>blocks := del_at i (blocks sp)\<rparr>) st)" for i
    unfolding block_edit_def
    by (intro disjI2 exI [of _ sp] exI [of _ "sp\<lparr>blocks := del_at i (blocks sp)\<rparr>"]) auto
  have n: "block_edit st st" by (simp add: block_edit_def)
  show ?thesis
    using Cons e n
    by (auto simp: delete_block_def split: option.splits)
qed

lemma replace_keeps_keys:
  assumes "distinct (map space_id st)" "sp \<in> set st" "space_id new = space_id sp" "f new = f sp"
  shows "map f (cosmos_replace sp new st) = map f st"
    and "map space_id (cosmos_replace sp new st) = map space_id st"
proof -
  have "s = sp" if "s \<in> set st" "space_id s = space_id sp" for s
    using assms(1,2) that by (meson distinct_map inj_onD)
  then show "map f (cosmos_replace sp new st) = map f st"
    using assms(4) by (auto simp: cosmos_replace_def)
  show "map space_id (cosmos_replace sp new st) = map space_id st"
    using assms(3) by (auto simp: cosmos_replace_def)
qed

lemma tenant_names_unique_replace:
  assumes "tenant_names_unique lower st" "sp \<in> set st"
    and "space_id new = space_id sp" "space_name new = space_name sp"
  shows "tenant_names_unique lower (cosmos_replace sp new st)"
proof -
  have d: "distinct (map space_id st)" using assms(1) by (simp add: tenant_names_unique_def)
  have "lower (space_name new) = lower (space_name sp)" using assms(4) by simp
  from replace_keeps_keys [OF d assms(2,3), of "\<lambda>s. lower (space_name s)", OF this]
  show ?thesis using assms(1) by (simp add: tenant_names_unique_def)
qed

lemma tenant_names_unique_edit:
  "tenant_names_unique lower st \<Longrightarrow> block_edit st st' \<Longrightarrow> tenant_names_unique lower st'"
  unfolding block_edit_def by (auto intro: tenant_names_unique_replace)

lemma distinct_del_at: "distinct xs \<Longrightarrow> distinct (del_at i xs)"
proof (induction xs arbitrary: i)
  case Nil
  then show ?case by (simp add: del_at_def)
next
  case (Cons x xs)
  show ?case
  proof (cases i)
    case 0
    then show ?thesis using Cons.prems by (simp add: del_at_def)
  next
    case (Suc j)
    have "del_at (Suc j) (x # xs) = x # del_at j xs"
      by (simp add: del_at_def)
    moreover have "x \<notin> set (del_at j xs)"
      using Cons.prems set_del_at [of j xs] by auto
    moreover have "distinct (del_at j xs)"
      using Cons.IH Cons.prems by simp
    ultimately show ?thesis by (simp add: Suc)
  qed
qed

lemma map_del_at: "map f (del_at i xs) = del_at i (map f xs)"
  by (simp add: del_at_def take_map drop_map)

lemma block_names_unique_replace:
  "block_names_unique lower st \<Longrightarrow> distinct (map (\<lambda>b. lower (block_name b)) (blocks new))
     \<Longrightarrow> block_names_unique lower (cosmos_replace sp new st)"
  by (auto simp: block_names_unique_def cosmos_replace_def)

lemma block_names_unique_edit:
  assumes "block_names_unique lower st" "block_edit st st'"
  shows "block_names_unique lower st'"
proof -
  have "distinct (map (\<lambda>b. lower (block_name b)) (blocks new))"
    if "sp \<in> set st"
      and "(map block_name (blocks new) = map block_name (blocks sp)
               \<and> map block_cidr (blocks new) = map block_cidr (blocks sp))
              \<or> (\<exists>i. blocks new = del_at i (blocks sp))" for sp new
  proof -
    have d: "distinct (map (\<lambda>b. lower (block_name b)) (blocks sp))"
      using assms(1) that(1) by (simp add: block_names_unique_def)
    from that(2) show ?thesis
    proof
      assume "map block_name (blocks new) = map block_name (blocks sp)
               \<and> map block_cidr (blocks new) = map block_cidr (blocks sp)"
      then have "map lower (map block_name (blocks new)) = map lower (map block_name (blocks sp))"
        by simp
      then have "map (\<lambda>b. lower (block_name b)) (blocks new) = map (\<lambda>b. lower (block_name b)) (blocks sp)"
        by (simp add: comp_def)
      with d show ?thesis by simp
    next
      assume "\<exists>i. blocks new = del_at i (blocks sp)"
      then show ?thesis using d by (auto simp: map_del_at distinct_del_at)
    qed
  qed
  then show ?thesis
    using assms unfolding block_edit_def
    by (auto intro: block_names_unique_replace)
qed

lemma store_disjoint_edit:
  assumes "store_disjoint st" "block_edit st st'"
  shows "store_disjoint st'"
proof -
  have "blocks_disjoint (blocks new)"
    if "sp \<in> set st"
      and "(map block_name (blocks new) = map block_name (blocks sp)
               \<and> map block_cidr (blocks new) = map block_cidr (blocks sp))
              \<or> (\<exists>i. blocks new = del_at i (blocks sp))" for sp new
  proof -
    have d: "blocks_disjoint (blocks sp)"
      using assms(1) that(1) by (rule store_disjoint_mem)
    from that(2) show ?thesis
      using d blocks_disjoint_cidrs [of "blocks new" "blocks sp"]
      by (auto simp: blocks_disjoint_del_at)
  qed
  then show ?thesis
    using assms unfolding block_edit_def
    by (auto intro: store_disjoint_replace)
qed

lemma scrub_space_patch_subset: "scrub_space_patch updates = Inr ps \<Longrightarrow> set ps \<subseteq> set updates"
proof (induction updates arbitrary: ps)
  case Nil
  then show ?case by simp
next
  case (Cons item rest)
  then show ?case
    by (auto split: option.splits if_splits sum.splits prod.splits)
qed

lemma scrub_space_patch_replace:
  "scrub_space_patch updates = Inr ps \<Longrightarrow> \<forall>i\<in>set ps. patch_op i = ''replace''"
proof (induction updates arbitrary: ps)
  case Nil
  then show ?case by simp
next
  case (Cons item rest)
  then show ?case
    by (auto simp: allowed_ops_def split: option.splits if_splits sum.splits prod.splits)
qed

lemma fold_apply_patch_item_id: "space_id (fold apply_patch_item ps sp) = space_id sp"
  by (induction ps arbitrary: sp) (simp_all add: apply_patch_item_def)

lemma fold_apply_patch_item_name:
  "\<forall>i\<in>set ps. patch_path i \<noteq> ''/name'' \<Longrightarrow> space_name (fold apply_patch_item ps sp) = space_name sp"
  by (induction ps arbitrary: sp) (simp_all add: apply_patch_item_def)

lemma update_space_effect:
  "snd (update_space lower space_nm updates is_admin st) = st
   \<or> (\<exists>sp new. sp \<in> set st \<and> space_id new = space_id sp \<and> blocks new = blocks sp
         \<and> ((\<forall>i\<in>set updates. \<not> (patch_op i = ''replace'' \<and> patch_path i = ''/name'')) \<longrightarrow> space_name new = space_name sp)
         \<and> snd (update_space lower space_nm updates is_admin st) = cosmos_replace sp new st)"
proof (cases "is_admin \<and> valid_json_patch updates")
  case False
  then show ?thesis by (auto simp: update_space_def split: list.splits)
next
  case True
  show ?thesis
  proof (cases "cosmos_query_space lower space_nm st")
    case Nil
    then show ?thesis by (simp add: update_space_def)
  next
    case (Cons sp others)
    have m: "sp \<in> set st" using Cons by (rule query_space_mem)
    show ?thesis
    proof (cases "scrub_space_patch updates")
      case (Inl e)
      then show ?thesis using Cons by (simp add: update_space_def)
    next
      case (Inr ps)
      let ?new = "fold apply_patch_item ps sp"
      have "(\<forall>i\<in>set updates. \<not> (patch_op i = ''replace'' \<and> patch_path i = ''/name'')) \<longrightarrow> space_name ?new = space_name sp"
        using scrub_space_patch_subset [OF Inr] scrub_space_patch_replace [OF Inr]
        by (auto intro: fold_apply_patch_item_name)
      moreover have "snd (update_space lower space_nm updates is_admin st) = cosmos_replace sp ?new st"
        using True Cons Inr by (simp add: update_space_def Let_def)
      ultimately show ?thesis
        using m fold_apply_patch_item_id [of ps sp] blocks_fold_apply_patch_item [of ps sp]
        by blast
    qed
  qed
qed

lemma tenant_names_unique_update_space:
  assumes "tenant_names_unique lower st"
    and "\<forall>i\<in>set updates. \<not> (patch_op i = ''replace'' \<and> patch_path i = ''/name'')"
  shows "tenant_names_unique lower (snd (update_space lower space_nm updates is_admin st))"
  using update_space_effect [of lower space_nm updates is_admin st] assms
  by (auto intro: tenant_names_unique_replace)

lemma block_names_unique_update_space:
  assumes "block_names_unique lower st"
  shows "block_names_unique lower (snd (update_space lower space_nm updates is_admin st))"
proof -
  have "block_names_unique lower (cosmos_replace sp new st)"
    if "sp \<in> set st" "blocks new = blocks sp" for sp new
    using assms that by (intro block_names_unique_replace) (simp_all add: block_names_unique_def)
  then show ?thesis
    using update_space_effect [of lower space_nm updates is_admin st] assms by auto
qed

lemma create_space_effect:
  "snd (create_space lower space_rq new_id is_admin st) = st
   \<or> (find (\<lambda>x. lower (space_name x) = lower (sreq_name space_rq)) st = None
      \<and> snd (create_space lower space_rq new_id is_admin st)
          = cosmos_upsert \<lparr>space_id = new_id, space_name = sreq_name space_rq,
                            space_desc = sreq_desc space_rq, blocks = []\<rparr> st)"
  by (auto simp: create_space_def cosmos_query_spaces_def Let_def split: option.splits)

lemma tenant_names_unique_create_space:
  assumes "tenant_names_unique lower st" "new_id \<notin> space_id ` set st"
  shows "tenant_names_unique lower (snd (create_space lower space_rq new_id is_admin st))"
proof -
  let ?new = "\<lparr>space_id = new_id, space_name = sreq_name space_rq,
                 space_desc = sreq_desc space_rq, blocks = []\<rparr>"
  have "tenant_names_unique lower (cosmos_upsert ?new st)"
    if "find (\<lambda>x. lower (space_name x) = lower (sreq_name space_rq)) st = None"
  proof -
    have "\<not> list_ex (\<lambda>s. space_id s = space_id ?new) st"
      using assms(2) by (auto simp: list_ex_iff)
    then have "cosmos_upsert ?new st = st @ [?new]" by (simp add: cosmos_upsert_def)
    moreover have "lower (space_name ?new) \<notin> set (map (\<lambda>s. lower (space_name s)) st)"
      using that by (auto simp: find_None_iff)
    ultimately show ?thesis
      using assms by (auto simp: tenant_names_unique_def)
  qed
  then show ?thesis
    using create_space_effect [of lower space_rq new_id is_admin st] assms(1) by auto
qed

lemma block_names_unique_create_space:
  assumes "block_names_unique lower st"
  shows "block_names_unique lower (snd (create_space lower space_rq new_id is_admin st))"
  using create_space_effect [of lower space_rq new_id is_admin st] assms
  by (auto simp: block_names_unique_def cosmos_upsert_def split: if_splits)

lemma delete_space_effect:
  "snd (delete_space lower space_nm force is_admin st) = st
   \<or> (\<exists>sp. snd (delete_space lower space_nm force is_admin st) = cosmos_delete sp st)"
  by (auto simp: delete_space_def split: list.splits)

lemma tenant_names_unique_delete_space:
  assumes "tenant_names_unique lower st"
  shows "tenant_names_unique lower (snd (delete_space lower space_nm force is_admin st))"
  using delete_space_effect [of lower space_nm force is_admin st] assms
  by (auto simp: tenant_names_unique_def cosmos_delete_def distinct_map_filter)

lemma block_names_unique_delete_space:
  assumes "block_names_unique lower st"
  shows "block_names_unique lower (snd (delete_space lower space_nm force is_admin st))"
  using delete_space_effect [of lower space_nm force is_admin st] assms
  by (auto simp: block_names_unique_def cosmos_delete_def)

lemma store_disjoint_delete_space:
  assumes "store_disjoint st"
  shows "store_disjoint (snd (delete_space lower space_nm force is_admin st))"
  using delete_space_effect [of lower space_nm force is_admin st] assms
  by (auto simp: store_disjoint_def cosmos_delete_def)

lemma create_block_effect:
  "snd (create_block lower space_nm block is_admin st) = st
   \<or> (\<exists>sp nb. sp \<in> set st
        \<and> snd (create_block lower space_nm block is_admin st)
            = cosmos_replace sp (sp\<lparr>blocks := blocks sp @ [nb]\<rparr>) st)"
proof (cases "cosmos_query_space lower space_nm st")
  case Nil
  then show ?thesis by (simp add: create_block_def)
next
  case (Cons sp others)
  have "sp \<in> set st" using Cons by (rule query_space_mem)
  then show ?thesis
    using Cons by (auto simp: create_block_def Let_def)
qed

lemma tenant_names_unique_create_block:
  assumes "tenant_names_unique lower st"
  shows "tenant_names_unique lower (snd (create_block lower space_nm block is_admin st))"
proof -
  have "tenant_names_unique lower (cosmos_replace sp (sp\<lparr>blocks := blocks sp @ [nb]\<rparr>) st)"
    if "sp \<in> set st" for sp nb
    using assms that by (intro tenant_names_unique_replace) simp_all
  then show ?thesis
    using create_block_effect [of lower space_nm block is_admin st] assms by auto
qed

lemma addrs_network_in:
  assumes "wf_net other" "wf_net self" "addrs other \<subseteq> addrs self"
  shows "network_in other self"
proof -
  define ho where "ho = 32 - prefixlen other"
  define hs where "hs = 32 - prefixlen self"
  have io: "addrs other = {net_first other .. net_last other}" using assms(1) by (rule addrs_interval)
  have iself: "addrs self = {net_first self .. net_last self}" using assms(2) by (rule addrs_interval)
  have so: "net_last other = net_first other + 2 ^ ho - 1"
    by (simp add: net_last_def net_size_def ho_def)
  have ss: "net_last self = net_first self + 2 ^ hs - 1"
    by (simp add: net_last_def net_size_def hs_def)
  have pos: "(1::nat) \<le> 2 ^ ho" "(1::nat) \<le> 2 ^ hs" by simp_all
  have fo: "net_first other \<in> addrs other" and lo: "net_last other \<in> addrs other"
    unfolding io so using pos(1) by (auto simp del: One_nat_def power_eq_0_iff one_le_numeral one_le_power)
  have "net_first other \<in> addrs self" "net_last other \<in> addrs self"
    using fo lo assms(3) by blast+
  then have b: "net_first self \<le> net_first other" "net_first other + 2 ^ ho - 1 \<le> net_first self + 2 ^ hs - 1"
    unfolding iself so ss by simp_all
  have "(2::nat) ^ ho \<le> 2 ^ hs"
    using b pos by linarith
  then have hle: "ho \<le> hs" by simp
  then have ple: "prefixlen self \<le> prefixlen other"
    using assms(1,2) unfolding ho_def hs_def wf_net_def by linarith
  have "net_first other div 2 ^ hs = net_value self div 2 ^ hs"
    using \<open>net_first other \<in> addrs self\<close> by (simp add: addrs_def hs_def)
  moreover have "net_first other div 2 ^ hs = net_value other div 2 ^ hs"
  proof -
    obtain d where d: "hs = ho + d" using hle by (metis le_Suc_ex)
    have "net_first other div 2 ^ ho = net_value other div 2 ^ ho"
      by (simp add: net_first_def ho_def)
    then have "(net_first other div 2 ^ ho) div 2 ^ d = (net_value other div 2 ^ ho) div 2 ^ d"
      by simp
    then show ?thesis
      unfolding d power_add by (simp add: div_mult2_eq)
  qed
  ultimately show ?thesis
    using ple by (simp add: network_in_def Let_def hs_def)
qed

section \<open>The claims\<close>

text \<open>
  C1 (P3, containment). Whenever \<^verbatim>\<open>create_block_reservation\<close> succeeds on a block whose
  reservations all lie within the block's range, the CIDR of the new reservation has exactly
  the requested prefix length, lies within the block's range, shares no address with any
  reservation of the block, and shares no address with any prefix of a network attached to
  the block that lies within the block's range (the prefixes are those of the directory
  entry found for the attached network). The flags \<open>reverse_search\<close> and \<open>smallest_cidr\<close>
  of the request are arbitrary. The result is also a well-formed network without host bits,
  so the address sets compared are not empty. The attachment prefixes that the code keeps
  lie within the block by construction (lines 1209 to 1214), so of the consumed ranges
  only the reservations carry the hypothesis of the claim. Every CIDR is a well-formed
  IPv4 network, as every value that netaddr has parsed is.
\<close>

theorem C1_containment:
  assumes "fst (create_block_reservation lower space_nm block_nm req creator_id new_id now vnet_list st) = Inr r"
    and "cosmos_query_space lower space_nm st = target_space # others"
    and "find (\<lambda>x. lower (block_name x) = lower block_nm) (blocks target_space) = Some target_block"
    and "wf_net (block_cidr target_block)"
    and "\<forall>rs\<in>set (resv target_block). wf_net (resv_cidr rs)
            \<and> addrs (resv_cidr rs) \<subseteq> addrs (block_cidr target_block)"
    and "\<forall>d\<in>set vnet_list. \<forall>p\<in>set (prefixes d). wf_net p"
  shows "int (prefixlen (resv_cidr r)) = req_size req
         \<and> wf_net (resv_cidr r) \<and> net_first (resv_cidr r) = net_value (resv_cidr r)
         \<and> addrs (resv_cidr r) \<subseteq> addrs (block_cidr target_block)
         \<and> (\<forall>rs\<in>set (resv target_block). addrs (resv_cidr r) \<inter> addrs (resv_cidr rs) = {})
         \<and> (\<forall>v\<in>set (vnets target_block). \<forall>d.
              find (\<lambda>x. lower (vi_id x) = lower (vnet_id v)) vnet_list = Some d \<longrightarrow>
              (\<forall>p\<in>set (prefixes d). addrs p \<subseteq> addrs (block_cidr target_block) \<longrightarrow>
                 addrs (resv_cidr r) \<inter> addrs p = {}))"
proof -
  let ?consumed = "block_all_cidrs lower vnet_list target_block"
  let ?b = "block_cidr target_block"
  have clip: "wf_net p \<and> network_in p ?b"
    if "v \<in> set (vnets target_block)" "p \<in> set (clipped_prefixes lower vnet_list target_block v)" for v p
  proof -
    from that(2) obtain d where d: "find (\<lambda>x. lower (vi_id x) = lower (vnet_id v)) vnet_list = Some d"
      and p: "p \<in> set (prefixes d)" "network_in p ?b"
      by (cases "find (\<lambda>x. lower (vi_id x) = lower (vnet_id v)) vnet_list")
        (auto simp: clipped_prefixes_def)
    from d have "d \<in> set vnet_list" by (auto simp: find_Some_iff)
    then show ?thesis using p assms(6) by blast
  qed
  have mem: "c \<in> set ?consumed \<Longrightarrow> wf_net c \<and> addrs c \<subseteq> addrs ?b" for c
  proof -
    assume "c \<in> set ?consumed"
    then consider v where "v \<in> set (vnets target_block)" "c \<in> set (clipped_prefixes lower vnet_list target_block v)"
      | rs where "rs \<in> set (resv target_block)" "c = resv_cidr rs"
      by (auto simp: block_all_cidrs_def)
    then show ?thesis
    proof cases
      case 1
      from clip [OF 1] show ?thesis
        by (auto simp: wf_net_def dest: network_in_addrs)
    next
      case 2
      then show ?thesis using assms(5) by blast
    qed
  qed
  have wfc: "list_all wf_net ?consumed"
    using mem by (simp add: list_all_iff)
  from create_block_reservation_Inr [OF assms(1,2,3)] obtain ab where
    sel: "select_available (req_size req) (reverse_search req) (smallest_cidr req)
            (available_set target_block ?consumed) = Inr (Some ab)"
    and nxt: "next_cidr ab (req_size req) (reverse_search req) = Inr (resv_cidr r)"
    by blast
  note snd = allocation_sound [OF sel nxt assms(4) wfc]
  have free: "addrs (resv_cidr r) \<subseteq> addrs ?b - (\<Union>n\<in>set ?consumed. addrs n)"
    using snd(4) mem by blast
  have inb: "addrs (resv_cidr r) \<subseteq> addrs ?b"
    using free by blast
  have dis: "addrs (resv_cidr r) \<inter> addrs c = {}" if "c \<in> set ?consumed" for c
    using free that by blast
  have r: "\<forall>rs\<in>set (resv target_block). addrs (resv_cidr r) \<inter> addrs (resv_cidr rs) = {}"
  proof
    fix rs assume "rs \<in> set (resv target_block)"
    then have "resv_cidr rs \<in> set ?consumed" by (simp add: block_all_cidrs_def)
    then show "addrs (resv_cidr r) \<inter> addrs (resv_cidr rs) = {}" by (rule dis)
  qed
  have v: "addrs (resv_cidr r) \<inter> addrs p = {}"
    if "v \<in> set (vnets target_block)"
      and "find (\<lambda>x. lower (vi_id x) = lower (vnet_id v)) vnet_list = Some d"
      and "p \<in> set (prefixes d)" "addrs p \<subseteq> addrs ?b" for v d p
  proof -
    from that(2) have "d \<in> set vnet_list" by (auto simp: find_Some_iff)
    then have "wf_net p" using that(3) assms(6) by blast
    then have "network_in p ?b" using assms(4) that(4) by (rule addrs_network_in)
    then have "p \<in> set (clipped_prefixes lower vnet_list target_block v)"
      using that(2,3) by (simp add: clipped_prefixes_def)
    then have "p \<in> set ?consumed" using that(1) by (auto simp: block_all_cidrs_def)
    then show ?thesis by (rule dis)
  qed
  show ?thesis
    using snd(1,2,3) inb r v by blast
qed


theorem C1_containment_witness:
  "fst (create_block_reservation ascii_lower ''prod'' ''b1''
        \<lparr>req_size = 27, reverse_search = False, smallest_cidr = False\<rparr> ''u'' ''r2'' 7
        [\<lparr>vi_id = ''V1'', prefixes = [IPNetwork (ip 10 0 0 0) 25, IPNetwork (ip 10 1 0 0) 16]\<rparr>]
        [demo_space [attached_block \<lparr>resv := [demo_resv ''r1'' (IPNetwork (ip 10 0 0 128) 26) ''v'']\<rparr>]])
     = Inr (demo_resv ''r2'' (IPNetwork (ip 10 0 0 192) 27) ''u'' \<lparr>createdOn := 7\<rparr>)
   \<and> addrs (IPNetwork (ip 10 0 0 128) 26) \<subseteq> addrs (IPNetwork (ip 10 0 0 0) 24)
   \<and> addrs (IPNetwork (ip 10 0 0 0) 25) \<subseteq> addrs (IPNetwork (ip 10 0 0 0) 24)
   \<and> addrs (IPNetwork (ip 10 0 0 192) 27) \<subseteq> addrs (IPNetwork (ip 10 0 0 0) 24)
   \<and> addrs (IPNetwork (ip 10 0 0 192) 27) \<inter> addrs (IPNetwork (ip 10 0 0 128) 26) = {}
   \<and> addrs (IPNetwork (ip 10 0 0 192) 27) \<inter> addrs (IPNetwork (ip 10 0 0 0) 25) = {}
   \<and> wf_net (IPNetwork (ip 10 0 0 192) 27)"
proof -
  let ?r1 = "demo_resv ''r1'' (IPNetwork (ip 10 0 0 128) 26) ''v''"
  let ?b = "attached_block \<lparr>resv := [?r1]\<rparr>"
  let ?d = "\<lparr>vi_id = ''V1'', prefixes = [IPNetwork (ip 10 0 0 0) 25, IPNetwork (ip 10 1 0 0) 16]\<rparr>"
  let ?v = "\<lparr>vnet_id = ''v1'', active = True\<rparr>"
  let ?r = "demo_resv ''r2'' (IPNetwork (ip 10 0 0 192) 27) ''u'' \<lparr>createdOn := 7\<rparr>"
  let ?rq = "\<lparr>req_size = 27, reverse_search = False, smallest_cidr = False\<rparr>"
  have run: "fst (create_block_reservation ascii_lower ''prod'' ''b1'' ?rq ''u'' ''r2'' 7 [?d]
        [demo_space [?b]]) = Inr ?r"
    by (simp add: create_block_reservation_def cosmos_query_space_def select_available_def
        available_set_def block_all_cidrs_def clipped_prefixes_def py_max_def next_cidr_def
        attached_block_def demo_eval lower_eval netaddr_eval)
  have q: "cosmos_query_space ascii_lower ''prod'' [demo_space [?b]] = demo_space [?b] # []"
    by (simp add: cosmos_query_space_def demo_eval lower_eval)
  have f: "find (\<lambda>x. ascii_lower (block_name x) = ascii_lower ''b1'') (blocks (demo_space [?b])) = Some ?b"
    by (simp add: attached_block_def demo_eval lower_eval)
  have bc: "block_cidr ?b = IPNetwork (ip 10 0 0 0) 24"
    by (simp add: attached_block_def demo_eval)
  have w: "wf_net (block_cidr ?b)"
    unfolding bc by (simp add: wf_net_def ip_def)
  have i1: "addrs (IPNetwork (ip 10 0 0 128) 26) \<subseteq> addrs (IPNetwork (ip 10 0 0 0) 24)"
    by (rule network_in_addrs) (simp_all add: network_in_def ip_def)
  have i2: "addrs (IPNetwork (ip 10 0 0 0) 25) \<subseteq> addrs (IPNetwork (ip 10 0 0 0) 24)"
    by (rule network_in_addrs) (simp_all add: network_in_def ip_def)
  have hr: "\<forall>rs\<in>set (resv ?b). wf_net (resv_cidr rs) \<and> addrs (resv_cidr rs) \<subseteq> addrs (block_cidr ?b)"
    unfolding bc using i1 by (simp add: demo_eval wf_net_def ip_def)
  have hd: "\<forall>d\<in>set [?d]. \<forall>p\<in>set (prefixes d). wf_net p"
    by (simp add: wf_net_def ip_def)
  note inst = C1_containment [OF run q f w hr hd, unfolded bc]
  have wf: "wf_net (resv_cidr ?r)"
    by (rule inst [THEN conjunct2, THEN conjunct1])
  have inb: "addrs (resv_cidr ?r) \<subseteq> addrs (IPNetwork (ip 10 0 0 0) 24)"
    by (rule inst [THEN conjunct2, THEN conjunct2, THEN conjunct2, THEN conjunct1])
  have "addrs (resv_cidr ?r) \<inter> addrs (resv_cidr ?r1) = {}"
    by (rule inst [THEN conjunct2, THEN conjunct2, THEN conjunct2, THEN conjunct2,
          THEN conjunct1, THEN bspec]) simp
  then have dr: "addrs (IPNetwork (ip 10 0 0 192) 27) \<inter> addrs (IPNetwork (ip 10 0 0 128) 26) = {}"
    by (simp add: demo_eval)
  have fd: "find (\<lambda>x. ascii_lower (vi_id x) = ascii_lower (vnet_id ?v)) [?d] = Some ?d"
    by (simp add: lower_eval)
  have "addrs (resv_cidr ?r) \<inter> addrs (IPNetwork (ip 10 0 0 0) 25) = {}"
    by (rule inst [THEN conjunct2, THEN conjunct2, THEN conjunct2, THEN conjunct2,
          THEN conjunct2, THEN bspec, THEN spec, THEN mp, OF _ fd, THEN bspec, THEN mp, OF _ _ i2])
      (simp_all add: attached_block_def)
  then have dv: "addrs (IPNetwork (ip 10 0 0 192) 27) \<inter> addrs (IPNetwork (ip 10 0 0 0) 25) = {}"
    by (simp add: demo_eval)
  have wf': "wf_net (IPNetwork (ip 10 0 0 192) 27)"
    using wf by (simp add: demo_eval)
  have inb': "addrs (IPNetwork (ip 10 0 0 192) 27) \<subseteq> addrs (IPNetwork (ip 10 0 0 0) 24)"
    using inb by (simp add: demo_eval)
  show ?thesis
    using run i1 i2 inb' dr dv wf' by blast
qed

text \<open>
  C2 (exhaustion). With no free block of the requested size the request must fail with the
  HTTP error \<open>Network of requested size unavailable\<close>. It does when \<open>smallest_cidr\<close> is
  false. When \<open>smallest_cidr\<close> is true the list of candidates is empty and \<^verbatim>\<open>max\<close> raises
  ValueError before the check of line 1233 is reached: here for a /20 out of the empty
  block \<open>10.0.0.0/24\<close> (Scenario D), whose only free block is the /24 itself.
\<close>

theorem C2_exhausted_smallest_cidr_ValueError:
  "iter_cidrs (available_set (demo_block []) (block_all_cidrs ascii_lower [] (demo_block [])))
     = [IPNetwork (ip 10 0 0 0) 24]
   \<and> create_block_reservation ascii_lower ''prod'' ''b1''
       \<lparr>req_size = 20, reverse_search = False, smallest_cidr = True\<rparr> ''u'' ''r1'' 7 []
       [demo_space [demo_block []]]
     = (Inl ValueError, [demo_space [demo_block []]])
   \<and> create_block_reservation ascii_lower ''prod'' ''b1''
       \<lparr>req_size = 20, reverse_search = True, smallest_cidr = True\<rparr> ''u'' ''r1'' 7 []
       [demo_space [demo_block []]]
     = (Inl ValueError, [demo_space [demo_block []]])
   \<and> create_block_reservation ascii_lower ''prod'' ''b1''
       \<lparr>req_size = 20, reverse_search = False, smallest_cidr = False\<rparr> ''u'' ''r1'' 7 []
       [demo_space [demo_block []]]
     = (Inl (HTTPException 500 ''Network of requested size unavailable in target block.''),
        [demo_space [demo_block []]])"
  by (simp add: create_block_reservation_def cosmos_query_space_def select_available_def
      available_set_def block_all_cidrs_def py_max_def next_cidr_def demo_eval lower_eval
      netaddr_eval)

text \<open>
  C3 (first fit over the block list). The blocks are scanned in the order given, each with
  its own consumed ranges, and the reservation goes to the first block with room; whenever
  the scan ends without an exception this is what it has done (\<open>scan_blocks_first_fit\<close>).
  With \<open>smallest_cidr\<close> false no scan raises: here \<open>b1\<close> is full, so the /26 is carved
  from \<open>b2\<close>. With \<open>smallest_cidr\<close> true the scan of the full block \<open>b1\<close> raises
  ValueError, \<open>b2\<close> is never looked at and nothing is reserved.
\<close>

theorem C3_multi_block_stops_at_full_block:
  "create_multi_block_reservation ascii_lower ''prod''
       \<lparr>req_size = 26, reverse_search = False, smallest_cidr = True, req_blocks = [''b1'', ''b2'']\<rparr>
       ''u'' ''r1'' 7 [] [demo_space [full_block, demo_block2]]
     = (Inl ValueError, [demo_space [full_block, demo_block2]])
   \<and> create_multi_block_reservation ascii_lower ''prod''
       \<lparr>req_size = 26, reverse_search = False, smallest_cidr = False, req_blocks = [''b1'', ''b2'']\<rparr>
       ''u'' ''r1'' 7 [] [demo_space [full_block, demo_block2]]
     = (Inr (demo_resv ''r1'' (IPNetwork (ip 10 0 1 0) 26) ''u'' \<lparr>createdOn := 7\<rparr>, ''b2''),
        [demo_space [full_block,
           demo_block2 \<lparr>resv := [demo_resv ''r1'' (IPNetwork (ip 10 0 1 0) 26) ''u'' \<lparr>createdOn := 7\<rparr>]\<rparr>]])"
  by (simp add: create_multi_block_reservation_def cosmos_query_space_def cosmos_replace_def
      select_available_def available_set_def block_all_cidrs_def py_max_def next_cidr_def
      demo_eval demo_block2_def full_block_def lower_eval netaddr_eval)

text \<open>
  C4 (Scenario C). For a block with range \<open>10.0.0.0/24\<close> whose consumed ranges merge to
  exactly \<open>10.0.0.0/26\<close>, a request of length 27 with \<open>smallest_cidr\<close> true and
  \<open>reverse_search\<close> false succeeds with \<open>10.0.0.64/27\<close>: the free blocks are
  \<open>10.0.0.64/26\<close> and \<open>10.0.0.128/25\<close>, and the first /27 of the smaller one is returned.
\<close>

theorem C4_scenario_C:
  assumes "cosmos_query_space lower space_nm st = target_space # others"
    and "find (\<lambda>x. lower (block_name x) = lower block_nm) (blocks target_space) = Some target_block"
    and "block_cidr target_block = IPNetwork (ip 10 0 0 0) 24"
    and "IPSet (block_all_cidrs lower vnet_list target_block) = IPSet [IPNetwork (ip 10 0 0 0) 26]"
    and "req_size req = 27" and "smallest_cidr req" and "\<not> reverse_search req"
  shows "iter_cidrs (available_set target_block (block_all_cidrs lower vnet_list target_block))
           = [IPNetwork (ip 10 0 0 64) 26, IPNetwork (ip 10 0 0 128) 25]
         \<and> map_sum id resv_cidr
             (fst (create_block_reservation lower space_nm block_nm req creator_id new_id now vnet_list st))
           = Inr (IPNetwork (ip 10 0 0 64) 27)"
proof -
  have free: "iter_cidrs (available_set target_block (block_all_cidrs lower vnet_list target_block))
           = [IPNetwork (ip 10 0 0 64) 26, IPNetwork (ip 10 0 0 128) 25]"
    unfolding available_set_def Let_def assms(3,4)
    by (simp add: netaddr_eval)
  show ?thesis
    using assms(1,2,5,6,7)
    by (simp add: free create_block_reservation_def select_available_def py_max_def
        next_cidr_def subnet_def net_first_def ip_def upt_rec Let_def)
qed

theorem C4_scenario_C_witness:
  "map_sum id resv_cidr
     (fst (create_block_reservation ascii_lower ''prod'' ''b1''
        \<lparr>req_size = 27, reverse_search = False, smallest_cidr = True\<rparr> ''u'' ''r2'' 7 []
        [demo_space [demo_block [demo_resv ''r1'' (IPNetwork (ip 10 0 0 0) 26) ''v'']]]))
   = Inr (IPNetwork (ip 10 0 0 64) 27)"
proof -
  let ?b = "demo_block [demo_resv ''r1'' (IPNetwork (ip 10 0 0 0) 26) ''v'']"
  have q: "cosmos_query_space ascii_lower ''prod'' [demo_space [?b]] = demo_space [?b] # []"
    by (simp add: cosmos_query_space_def demo_eval lower_eval)
  have f: "find (\<lambda>x. ascii_lower (block_name x) = ascii_lower ''b1'') (blocks (demo_space [?b])) = Some ?b"
    by (simp add: demo_eval lower_eval)
  have c: "block_cidr ?b = IPNetwork (ip 10 0 0 0) 24"
    by (simp add: demo_eval)
  have e: "IPSet (block_all_cidrs ascii_lower [] ?b) = IPSet [IPNetwork (ip 10 0 0 0) 26]"
    by (simp add: block_all_cidrs_def demo_eval)
  show ?thesis
    using C4_scenario_C [OF q f c e, of "\<lparr>req_size = 27, reverse_search = False, smallest_cidr = True\<rparr>" "''u''" "''r2''" 7]
    by simp
qed

text \<open>
  C5 (Scenarios A and B). For a block with range \<open>10.0.0.0/24\<close> and an empty consumed set,
  a request of length 26 with \<open>smallest_cidr\<close> false succeeds with \<open>10.0.0.0/26\<close> when
  \<open>reverse_search\<close> is false and with \<open>10.0.0.192/26\<close> when it is true.
\<close>

theorem C5_scenarios_A_B:
  assumes "cosmos_query_space lower space_nm st = target_space # others"
    and "find (\<lambda>x. lower (block_name x) = lower block_nm) (blocks target_space) = Some target_block"
    and "block_cidr target_block = IPNetwork (ip 10 0 0 0) 24"
    and "block_all_cidrs lower vnet_list target_block = []"
    and "req_size req = 26" and "\<not> smallest_cidr req"
  shows "map_sum id resv_cidr
           (fst (create_block_reservation lower space_nm block_nm req creator_id new_id now vnet_list st))
         = Inr (if reverse_search req then IPNetwork (ip 10 0 0 192) 26
                else IPNetwork (ip 10 0 0 0) 26)"
  using assms
  by (simp add: create_block_reservation_def select_available_def available_set_def
      next_cidr_def netaddr_eval)

theorem C5_scenarios_A_B_witness:
  "map_sum id resv_cidr
     (fst (create_block_reservation ascii_lower ''prod'' ''B1''
        \<lparr>req_size = 26, reverse_search = False, smallest_cidr = False\<rparr> ''u'' ''r1'' 7 []
        [demo_space [demo_block []]]))
   = Inr (IPNetwork (ip 10 0 0 0) 26)
   \<and> map_sum id resv_cidr
     (fst (create_block_reservation ascii_lower ''prod'' ''B1''
        \<lparr>req_size = 26, reverse_search = True, smallest_cidr = False\<rparr> ''u'' ''r1'' 7 []
        [demo_space [demo_block []]]))
   = Inr (IPNetwork (ip 10 0 0 192) 26)"
proof -
  have q: "cosmos_query_space ascii_lower ''prod'' [demo_space [demo_block []]] = demo_space [demo_block []] # []"
    by (simp add: cosmos_query_space_def demo_eval lower_eval)
  have f: "find (\<lambda>x. ascii_lower (block_name x) = ascii_lower ''B1'') (blocks (demo_space [demo_block []]))
             = Some (demo_block [])"
    by (simp add: demo_eval lower_eval)
  have c: "block_cidr (demo_block []) = IPNetwork (ip 10 0 0 0) 24"
    by (simp add: demo_eval)
  have e: "block_all_cidrs ascii_lower [] (demo_block []) = []"
    by (simp add: block_all_cidrs_def demo_eval)
  show ?thesis
    using C5_scenarios_A_B [OF q f c e, of "\<lparr>req_size = 26, reverse_search = False, smallest_cidr = False\<rparr>" "''u''" "''r1''" 7]
          C5_scenarios_A_B [OF q f c e, of "\<lparr>req_size = 26, reverse_search = True, smallest_cidr = False\<rparr>" "''u''" "''r1''" 7]
    by simp
qed




text \<open>
  C7 (names are unique up to case). The claim as written fails twice. Renaming a space
  through \<^verbatim>\<open>update_space\<close> checks the new name against the regular expression only, so
  \<open>beta\<close> can be renamed to \<open>ALPHA\<close> next to \<open>alpha\<close>; \<^verbatim>\<open>create_space\<close>, the sibling path,
  does compare names. And \<^verbatim>\<open>create_block\<close> compares CIDR ranges only, never names, so the
  block \<open>B1\<close> can be created next to \<open>b1\<close>.
\<close>

theorem C7_rename_and_block_name_counterexample:
  "update_space ascii_lower ''beta'' [\<lparr>patch_op = ''replace'', patch_path = ''/name'', patch_value = ''ALPHA''\<rparr>]
       True two_spaces
     = (Inr \<lparr>space_id = ''s2'', space_name = ''ALPHA'', space_desc = ''second'', blocks = []\<rparr>,
        [\<lparr>space_id = ''s1'', space_name = ''alpha'', space_desc = ''first'', blocks = []\<rparr>,
         \<lparr>space_id = ''s2'', space_name = ''ALPHA'', space_desc = ''second'', blocks = []\<rparr>])
   \<and> ascii_lower ''ALPHA'' = ascii_lower ''alpha''
   \<and> create_block ascii_lower ''prod'' \<lparr>breq_name = ''B1'', breq_cidr = IPNetwork (ip 10 0 1 0) 24\<rparr> True
       [demo_space [demo_block []]]
     = (Inr (demo_block2\<lparr>block_name := ''B1''\<rparr>),
        [demo_space [demo_block [], demo_block2\<lparr>block_name := ''B1''\<rparr>]])
   \<and> ascii_lower ''B1'' = ascii_lower ''b1''
   \<and> block_name (demo_block []) = ''b1''
   \<and> tenant_names_unique ascii_lower two_spaces
   \<and> \<not> tenant_names_unique ascii_lower
        [\<lparr>space_id = ''s1'', space_name = ''alpha'', space_desc = ''first'', blocks = []\<rparr>,
         \<lparr>space_id = ''s2'', space_name = ''ALPHA'', space_desc = ''second'', blocks = []\<rparr>]
   \<and> block_names_unique ascii_lower [demo_space [demo_block []]]
   \<and> \<not> block_names_unique ascii_lower
        [demo_space [demo_block [], demo_block2\<lparr>block_name := ''B1''\<rparr>]]"
  by (simp add: update_space_def create_block_def cosmos_query_space_def cosmos_replace_def
      valid_json_patch_def jsonpatch_operations_def allowed_ops_def re_match_repeat_def
      alnum_def apply_patch_item_def two_spaces_def tenant_names_unique_def
      block_names_unique_def ipset_bool_def demo_block2_def demo_eval lower_eval netaddr_eval)

text \<open>
  C7 as amended. In a tenant whose space documents have distinct ids and names that are
  unique up to case, the names are still unique up to case after every mutation other than
  a renaming of a space (a patch with a \<^verbatim>\<open>replace\<close> of \<^verbatim>\<open>/name\<close> given to \<^verbatim>\<open>update_space\<close>):
  after \<^verbatim>\<open>create_space\<close>, whose new document has a fresh id, after \<^verbatim>\<open>update_space\<close> with any
  other patch, and after each of the nine other mutations. In a tenant whose block names
  are unique up to case within each space, they are still so after every mutation other
  than \<^verbatim>\<open>create_block\<close>. The requests may succeed or fail; a failed one leaves the store as
  it was.
\<close>

theorem C7_names_unique_kept:
  "(tenant_names_unique lower st \<longrightarrow>
      (new_id \<notin> space_id ` set st \<longrightarrow>
         tenant_names_unique lower (snd (create_space lower space_rq new_id admin1 st)))
    \<and> ((\<forall>i\<in>set updates. \<not> (patch_op i = ''replace'' \<and> patch_path i = ''/name'')) \<longrightarrow>
         tenant_names_unique lower (snd (update_space lower name2 updates admin2 st)))
    \<and> tenant_names_unique lower (snd (delete_space lower name3 force3 admin3 st))
    \<and> tenant_names_unique lower (snd (create_block lower name4 block4 admin4 st))
    \<and> tenant_names_unique lower (snd (delete_block lower name5 block5 force5 admin5 st))
    \<and> tenant_names_unique lower
         (snd (create_block_vnet lower name6 block6 new_vnet vnet_list6 admin6 st))
    \<and> tenant_names_unique lower
         (snd (update_block_vnets lower name7 block7 ids7 vnet_list7 admin7 st))
    \<and> tenant_names_unique lower (snd (delete_block_vnets lower name8 block8 ids8 admin8 st))
    \<and> tenant_names_unique lower
         (snd (create_block_reservation lower name9 block9 req9 creator9 id9 now9 vnet_list9 st))
    \<and> tenant_names_unique lower
         (snd (create_multi_block_reservation lower name10 req10 creator10 id10 now10 vnet_list10 st))
    \<and> tenant_names_unique lower
         (snd (delete_block_reservations lower name11 block11 ids11 user11 admin11 st)))
   \<and> (block_names_unique lower st \<longrightarrow>
      block_names_unique lower (snd (create_space lower space_rq new_id admin1 st))
    \<and> block_names_unique lower (snd (update_space lower name2 updates admin2 st))
    \<and> block_names_unique lower (snd (delete_space lower name3 force3 admin3 st))
    \<and> block_names_unique lower (snd (delete_block lower name5 block5 force5 admin5 st))
    \<and> block_names_unique lower
         (snd (create_block_vnet lower name6 block6 new_vnet vnet_list6 admin6 st))
    \<and> block_names_unique lower
         (snd (update_block_vnets lower name7 block7 ids7 vnet_list7 admin7 st))
    \<and> block_names_unique lower (snd (delete_block_vnets lower name8 block8 ids8 admin8 st))
    \<and> block_names_unique lower
         (snd (create_block_reservation lower name9 block9 req9 creator9 id9 now9 vnet_list9 st))
    \<and> block_names_unique lower
         (snd (create_multi_block_reservation lower name10 req10 creator10 id10 now10 vnet_list10 st))
    \<and> block_names_unique lower
         (snd (delete_block_reservations lower name11 block11 ids11 user11 admin11 st)))"
proof (intro conjI impI)
  assume t: "tenant_names_unique lower st"
  note e = tenant_names_unique_edit [OF t]
  show "tenant_names_unique lower (snd (create_space lower space_rq new_id admin1 st))"
    if "new_id \<notin> space_id ` set st"
    using t that by (rule tenant_names_unique_create_space)
  show "tenant_names_unique lower (snd (update_space lower name2 updates admin2 st))"
    if "\<forall>i\<in>set updates. \<not> (patch_op i = ''replace'' \<and> patch_path i = ''/name'')"
    using t that by (rule tenant_names_unique_update_space)
  show "tenant_names_unique lower (snd (delete_space lower name3 force3 admin3 st))"
    using t by (rule tenant_names_unique_delete_space)
  show "tenant_names_unique lower (snd (create_block lower name4 block4 admin4 st))"
    using t by (rule tenant_names_unique_create_block)
  show "tenant_names_unique lower (snd (delete_block lower name5 block5 force5 admin5 st))"
    by (rule e [OF block_edit_delete_block])
  show "tenant_names_unique lower
         (snd (create_block_vnet lower name6 block6 new_vnet vnet_list6 admin6 st))"
    by (rule e [OF block_edit_create_block_vnet])
  show "tenant_names_unique lower
         (snd (update_block_vnets lower name7 block7 ids7 vnet_list7 admin7 st))"
    by (rule e [OF block_edit_update_block_vnets])
  show "tenant_names_unique lower (snd (delete_block_vnets lower name8 block8 ids8 admin8 st))"
    by (rule e [OF block_edit_delete_block_vnets])
  show "tenant_names_unique lower
         (snd (create_block_reservation lower name9 block9 req9 creator9 id9 now9 vnet_list9 st))"
    by (rule e [OF block_edit_create_block_reservation])
  show "tenant_names_unique lower
         (snd (create_multi_block_reservation lower name10 req10 creator10 id10 now10 vnet_list10 st))"
    by (rule e [OF block_edit_create_multi_block_reservation])
  show "tenant_names_unique lower
         (snd (delete_block_reservations lower name11 block11 ids11 user11 admin11 st))"
    by (rule e [OF block_edit_delete_block_reservations])
next
  assume b: "block_names_unique lower st"
  note e = block_names_unique_edit [OF b]
  show "block_names_unique lower (snd (create_space lower space_rq new_id admin1 st))"
    using b by (rule block_names_unique_create_space)
  show "block_names_unique lower (snd (update_space lower name2 updates admin2 st))"
    using b by (rule block_names_unique_update_space)
  show "block_names_unique lower (snd (delete_space lower name3 force3 admin3 st))"
    using b by (rule block_names_unique_delete_space)
  show "block_names_unique lower (snd (delete_block lower name5 block5 force5 admin5 st))"
    by (rule e [OF block_edit_delete_block])
  show "block_names_unique lower
         (snd (create_block_vnet lower name6 block6 new_vnet vnet_list6 admin6 st))"
    by (rule e [OF block_edit_create_block_vnet])
  show "block_names_unique lower
         (snd (update_block_vnets lower name7 block7 ids7 vnet_list7 admin7 st))"
    by (rule e [OF block_edit_update_block_vnets])
  show "block_names_unique lower (snd (delete_block_vnets lower name8 block8 ids8 admin8 st))"
    by (rule e [OF block_edit_delete_block_vnets])
  show "block_names_unique lower
         (snd (create_block_reservation lower name9 block9 req9 creator9 id9 now9 vnet_list9 st))"
    by (rule e [OF block_edit_create_block_reservation])
  show "block_names_unique lower
         (snd (create_multi_block_reservation lower name10 req10 creator10 id10 now10 vnet_list10 st))"
    by (rule e [OF block_edit_create_multi_block_reservation])
  show "block_names_unique lower
         (snd (delete_block_reservations lower name11 block11 ids11 user11 admin11 st))"
    by (rule e [OF block_edit_delete_block_reservations])
qed


theorem C7_names_unique_kept_witness:
  "tenant_names_unique ascii_lower two_spaces
   \<and> create_space ascii_lower \<lparr>sreq_name = ''Gamma'', sreq_desc = ''third''\<rparr> ''s3'' True two_spaces
     = (Inr \<lparr>space_id = ''s3'', space_name = ''Gamma'', space_desc = ''third'', blocks = []\<rparr>,
        two_spaces @ [\<lparr>space_id = ''s3'', space_name = ''Gamma'', space_desc = ''third'', blocks = []\<rparr>])
   \<and> tenant_names_unique ascii_lower
        (two_spaces @ [\<lparr>space_id = ''s3'', space_name = ''Gamma'', space_desc = ''third'', blocks = []\<rparr>])
   \<and> fst (create_space ascii_lower \<lparr>sreq_name = ''ALPHA'', sreq_desc = ''third''\<rparr> ''s3'' True two_spaces)
     = Inl (HTTPException 400 ''Space name must be unique.'')
   \<and> update_space ascii_lower ''BETA''
        [\<lparr>patch_op = ''replace'', patch_path = ''/desc'', patch_value = ''other''\<rparr>] True two_spaces
     = (Inr \<lparr>space_id = ''s2'', space_name = ''beta'', space_desc = ''other'', blocks = []\<rparr>,
        [\<lparr>space_id = ''s1'', space_name = ''alpha'', space_desc = ''first'', blocks = []\<rparr>,
         \<lparr>space_id = ''s2'', space_name = ''beta'', space_desc = ''other'', blocks = []\<rparr>])
   \<and> tenant_names_unique ascii_lower
        [\<lparr>space_id = ''s1'', space_name = ''alpha'', space_desc = ''first'', blocks = []\<rparr>,
         \<lparr>space_id = ''s2'', space_name = ''beta'', space_desc = ''other'', blocks = []\<rparr>]
   \<and> block_names_unique ascii_lower [demo_space [demo_block [], demo_block2]]
   \<and> delete_block ascii_lower ''prod'' ''b2'' False True [demo_space [demo_block [], demo_block2]]
     = (Inr (), [demo_space [demo_block []]])
   \<and> block_names_unique ascii_lower [demo_space [demo_block []]]"
proof -
  let ?rq = "\<lparr>sreq_name = ''Gamma'', sreq_desc = ''third''\<rparr>"
  let ?sp = "\<lparr>space_id = ''s3'', space_name = ''Gamma'', space_desc = ''third'', blocks = []\<rparr>"
  let ?patch = "[\<lparr>patch_op = ''replace'', patch_path = ''/desc'', patch_value = ''other''\<rparr>]"
  let ?st = "[demo_space [demo_block [], demo_block2]]"
  have t0: "tenant_names_unique ascii_lower two_spaces"
    by (simp add: tenant_names_unique_def two_spaces_def lower_eval)
  have b0: "block_names_unique ascii_lower ?st"
    by (simp add: block_names_unique_def demo_block2_def demo_eval lower_eval)
  have run1: "create_space ascii_lower ?rq ''s3'' True two_spaces = (Inr ?sp, two_spaces @ [?sp])"
    by (simp add: create_space_def cosmos_query_spaces_def cosmos_upsert_def two_spaces_def
        lower_eval Let_def)
  have dup: "fst (create_space ascii_lower \<lparr>sreq_name = ''ALPHA'', sreq_desc = ''third''\<rparr> ''s3'' True two_spaces)
     = Inl (HTTPException 400 ''Space name must be unique.'')"
    by (simp add: create_space_def cosmos_query_spaces_def two_spaces_def lower_eval Let_def)
  have run2: "update_space ascii_lower ''BETA'' ?patch True two_spaces
     = (Inr \<lparr>space_id = ''s2'', space_name = ''beta'', space_desc = ''other'', blocks = []\<rparr>,
        [\<lparr>space_id = ''s1'', space_name = ''alpha'', space_desc = ''first'', blocks = []\<rparr>,
         \<lparr>space_id = ''s2'', space_name = ''beta'', space_desc = ''other'', blocks = []\<rparr>])"
    by (simp add: update_space_def cosmos_query_space_def cosmos_replace_def
        valid_json_patch_def jsonpatch_operations_def allowed_ops_def re_match_repeat_def
        alnum_def apply_patch_item_def two_spaces_def lower_eval Let_def)
  have run3: "delete_block ascii_lower ''prod'' ''b2'' False True ?st = (Inr (), [demo_space [demo_block []]])"
    by (simp add: delete_block_def cosmos_query_space_def cosmos_replace_def del_at_def
        demo_block2_def demo_eval lower_eval)
  note names = C7_names_unique_kept [THEN conjunct1, THEN mp, OF t0]
  note block_names = C7_names_unique_kept [THEN conjunct2, THEN mp, OF b0]
  have "tenant_names_unique ascii_lower (snd (create_space ascii_lower ?rq ''s3'' True two_spaces))"
    by (rule names [THEN conjunct1, THEN mp]) (simp add: two_spaces_def)
  then have 1: "tenant_names_unique ascii_lower (two_spaces @ [?sp])"
    unfolding run1 by simp
  have "tenant_names_unique ascii_lower (snd (update_space ascii_lower ''BETA'' ?patch True two_spaces))"
    by (rule names [THEN conjunct2, THEN conjunct1, THEN mp]) simp
  then have 2: "tenant_names_unique ascii_lower
        [\<lparr>space_id = ''s1'', space_name = ''alpha'', space_desc = ''first'', blocks = []\<rparr>,
         \<lparr>space_id = ''s2'', space_name = ''beta'', space_desc = ''other'', blocks = []\<rparr>]"
    unfolding run2 by simp
  have "block_names_unique ascii_lower (snd (delete_block ascii_lower ''prod'' ''b2'' False True ?st))"
    by (rule block_names [THEN conjunct2, THEN conjunct2, THEN conjunct2, THEN conjunct1])
  then have 3: "block_names_unique ascii_lower [demo_space [demo_block []]]"
    unfolding run3 by simp
  show ?thesis
    using t0 run1 1 dup run2 2 b0 run3 3 by blast
qed

text \<open>
  C8 (sibling blocks never overlap). When \<^verbatim>\<open>create_block\<close> succeeds, the new block has the
  requested CIDR, its range shares no address with the range of any block the space already
  had, and the space is stored with the new block added at the end. Consequently a store in
  which no two sibling blocks overlap is still such a store after the request. The ten
  other mutations of \<^verbatim>\<open>space.py\<close> add no block and change no block's range, so they keep
  the invariant as well, whatever their outcome; the routers of \<^verbatim>\<open>admin.py\<close> write documents
  of type \<^verbatim>\<open>admin\<close> only, never a space.
\<close>

theorem C8_create_block_disjoint:
  assumes "fst (create_block lower space_nm block is_admin st) = Inr new_block"
    and "cosmos_query_space lower space_nm st = target_space # others"
    and "wf_net (breq_cidr block)"
    and "list_all wf_net (map block_cidr (blocks target_space))"
  shows "block_cidr new_block = breq_cidr block
         \<and> (\<forall>b\<in>set (blocks target_space). addrs (block_cidr new_block) \<inter> addrs (block_cidr b) = {})
         \<and> snd (create_block lower space_nm block is_admin st)
             = cosmos_replace target_space
                 (target_space\<lparr>blocks := blocks target_space @ [new_block]\<rparr>) st
         \<and> (store_disjoint st \<longrightarrow>
               store_disjoint (snd (create_block lower space_nm block is_admin st))
             \<and> store_disjoint (snd (create_space lower space_rq new_id admin1 st))
             \<and> store_disjoint (snd (update_space lower name2 updates admin2 st))
             \<and> store_disjoint (snd (delete_block lower name3 block3 force admin3 st))
             \<and> store_disjoint (snd (create_block_vnet lower name4 block4 new_vnet vnet_list4 admin4 st))
             \<and> store_disjoint
                 (snd (create_block_reservation lower name5 block5 req5 creator5 id5 now5 vnet_list5 st))
             \<and> store_disjoint
                 (snd (create_multi_block_reservation lower name6 req6 creator6 id6 now6 vnet_list6 st))
             \<and> store_disjoint (snd (delete_block_reservations lower name7 block7 ids7 user7 admin7 st))
             \<and> store_disjoint (snd (delete_space lower name8 force8 admin8 st))
             \<and> store_disjoint
                 (snd (update_block_vnets lower name9 block9 ids9 vnet_list9 admin9 st))
             \<and> store_disjoint (snd (delete_block_vnets lower name10 block10 ids10 admin10 st)))"
proof -
  from assms(1,2) have
    no: "\<not> ipset_bool (ipset_and (IPSet [breq_cidr block]) (IPSet (map block_cidr (blocks target_space))))"
    and nb: "new_block = \<lparr>block_name = breq_name block, block_cidr = breq_cidr block,
                           vnets = [], resv = []\<rparr>"
    and st': "snd (create_block lower space_nm block is_admin st)
               = cosmos_replace target_space
                   (target_space\<lparr>blocks := blocks target_space @ [new_block]\<rparr>) st"
    by (auto simp: create_block_def Let_def split: if_splits)
  have c: "block_cidr new_block = breq_cidr block" by (simp add: nb)
  have d: "\<forall>b\<in>set (blocks target_space). addrs (block_cidr new_block) \<inter> addrs (block_cidr b) = {}"
    using create_block_disjoint [OF no assms(3,4)] c by simp
  have new: "store_disjoint (snd (create_block lower space_nm block is_admin st))" if inv: "store_disjoint st"
  proof -
    have "target_space \<in> set st"
      using assms(2) by (metis cosmos_query_space_def filter_is_subset list.set_intros(1) subsetD)
    then have "blocks_disjoint (blocks target_space)"
      using inv by (simp add: store_disjoint_def)
    then have "blocks_disjoint (blocks (target_space\<lparr>blocks := blocks target_space @ [new_block]\<rparr>))"
      using d by (auto simp: blocks_disjoint_snoc)
    then show ?thesis
      unfolding st' using inv by (intro store_disjoint_replace)
  qed
  have others:
    "store_disjoint (snd (create_space lower space_rq new_id admin1 st))
     \<and> store_disjoint (snd (update_space lower name2 updates admin2 st))
     \<and> store_disjoint (snd (delete_block lower name3 block3 force admin3 st))
     \<and> store_disjoint (snd (create_block_vnet lower name4 block4 new_vnet vnet_list4 admin4 st))
     \<and> store_disjoint
         (snd (create_block_reservation lower name5 block5 req5 creator5 id5 now5 vnet_list5 st))
     \<and> store_disjoint
         (snd (create_multi_block_reservation lower name6 req6 creator6 id6 now6 vnet_list6 st))
     \<and> store_disjoint (snd (delete_block_reservations lower name7 block7 ids7 user7 admin7 st))
     \<and> store_disjoint (snd (delete_space lower name8 force8 admin8 st))
     \<and> store_disjoint (snd (update_block_vnets lower name9 block9 ids9 vnet_list9 admin9 st))
     \<and> store_disjoint (snd (delete_block_vnets lower name10 block10 ids10 admin10 st))"
    if inv: "store_disjoint st"
    using inv
    by (intro conjI store_disjoint_create_space store_disjoint_update_space
        store_disjoint_delete_block store_disjoint_create_block_vnet
        store_disjoint_create_block_reservation store_disjoint_create_multi_block_reservation
        store_disjoint_delete_block_reservations store_disjoint_delete_space
        store_disjoint_edit [OF _ block_edit_update_block_vnets]
        store_disjoint_edit [OF _ block_edit_delete_block_vnets])
  from c d st' new others show ?thesis by blast
qed

theorem C8_create_block_disjoint_witness:
  "fst (create_block ascii_lower ''prod'' \<lparr>breq_name = ''b2'', breq_cidr = IPNetwork (ip 10 0 1 0) 24\<rparr> True
         [demo_space [demo_block []]]) = Inr demo_block2
   \<and> addrs (IPNetwork (ip 10 0 1 0) 24) \<inter> addrs (IPNetwork (ip 10 0 0 0) 24) = {}
   \<and> snd (create_block ascii_lower ''prod'' \<lparr>breq_name = ''b2'', breq_cidr = IPNetwork (ip 10 0 1 0) 24\<rparr> True
         [demo_space [demo_block []]]) = [demo_space [demo_block [], demo_block2]]
   \<and> store_disjoint [demo_space [demo_block [], demo_block2]]
   \<and> fst (create_block ascii_lower ''prod'' \<lparr>breq_name = ''b3'', breq_cidr = IPNetwork (ip 10 0 0 128) 25\<rparr> True
         [demo_space [demo_block []]])
       = Inl (HTTPException 400 ''New block cannot overlap existing blocks.'')"
proof -
  let ?rq = "\<lparr>breq_name = ''b2'', breq_cidr = IPNetwork (ip 10 0 1 0) 24\<rparr>"
  let ?st = "[demo_space [demo_block []]]"
  have run: "fst (create_block ascii_lower ''prod'' ?rq True ?st) = Inr demo_block2"
    by (simp add: create_block_def cosmos_query_space_def ipset_bool_def demo_block2_def
        demo_eval lower_eval netaddr_eval)
  have q: "cosmos_query_space ascii_lower ''prod'' ?st = demo_space [demo_block []] # []"
    by (simp add: cosmos_query_space_def demo_eval lower_eval)
  have w: "wf_net (breq_cidr ?rq)"
    by (simp add: wf_net_def ip_def)
  have ws: "list_all wf_net (map block_cidr (blocks (demo_space [demo_block []])))"
    by (simp add: demo_eval wf_net_def ip_def)
  have inv: "store_disjoint ?st"
    by (simp add: store_disjoint_def demo_eval)
  have rep: "cosmos_replace (demo_space [demo_block []])
               (demo_space [demo_block []]\<lparr>blocks := blocks (demo_space [demo_block []]) @ [demo_block2]\<rparr>) ?st
             = [demo_space [demo_block [], demo_block2]]"
    by (simp add: cosmos_replace_def demo_eval)
  have bad: "fst (create_block ascii_lower ''prod'' \<lparr>breq_name = ''b3'', breq_cidr = IPNetwork (ip 10 0 0 128) 25\<rparr> True ?st)
       = Inl (HTTPException 400 ''New block cannot overlap existing blocks.'')"
    by (simp add: create_block_def cosmos_query_space_def ipset_bool_def
        demo_eval lower_eval netaddr_eval)
  note inst = C8_create_block_disjoint [OF run q w ws]
  note i2 = inst [THEN conjunct2, THEN conjunct1]
  note i3 = inst [THEN conjunct2, THEN conjunct2, THEN conjunct1]
  note i4 = inst [THEN conjunct2, THEN conjunct2, THEN conjunct2, THEN mp, OF inv, THEN conjunct1]
  have 1: "addrs (IPNetwork (ip 10 0 1 0) 24) \<inter> addrs (IPNetwork (ip 10 0 0 0) 24) = {}"
    using i2 by (simp add: demo_eval demo_block2_def)
  have 2: "snd (create_block ascii_lower ''prod'' ?rq True ?st) = [demo_space [demo_block [], demo_block2]]"
    using i3 rep by simp
  have 3: "store_disjoint [demo_space [demo_block [], demo_block2]]"
    using i4 unfolding 2 .
  show ?thesis
    using run 1 2 3 bad by blast
qed

text \<open>
  C9 (attachments are pairwise disjoint). The claim as written fails: the attach-time check
  takes only the first prefix of the new network that lies within the block
  (\<^verbatim>\<open>target_cidr\<close>, line 946). Here \<open>v2\<close> is attached although its second prefix
  \<open>10.0.0.64/26\<close>, which lies within the block, is the prefix of the attached \<open>v1\<close>.
\<close>

theorem C9_second_prefix_counterexample:
  "clipped_prefixes ascii_lower demo_directory attached_block \<lparr>vnet_id = ''v1'', active = True\<rparr>
     = [IPNetwork (ip 10 0 0 64) 26]
   \<and> clipped_prefixes ascii_lower demo_directory attached_block \<lparr>vnet_id = ''v2'', active = False\<rparr>
     = [IPNetwork (ip 10 0 0 0) 26, IPNetwork (ip 10 0 0 64) 26]
   \<and> ip 10 0 0 64 \<in> addrs (IPNetwork (ip 10 0 0 64) 26) \<inter> addrs (IPNetwork (ip 10 0 0 64) 26)
   \<and> create_block_vnet ascii_lower ''prod'' ''b1'' \<lparr>vnet_id = ''v2'', active = False\<rparr> demo_directory True
       [demo_space [attached_block]]
     = (Inr (attached_block\<lparr>vnets := [\<lparr>vnet_id = ''v1'', active = True\<rparr>,
                                        \<lparr>vnet_id = ''v2'', active = True\<rparr>]\<rparr>),
        [demo_space [attached_block\<lparr>vnets := [\<lparr>vnet_id = ''v1'', active = True\<rparr>,
                                                \<lparr>vnet_id = ''v2'', active = True\<rparr>]\<rparr>]])"
  by (simp add: create_block_vnet_def clipped_prefixes_def cosmos_query_space_def
      cosmos_replace_def ipset_bool_def addrs_def attached_block_def demo_directory_def
      demo_eval lower_eval netaddr_eval)

text \<open>
  C9 as amended. When \<^verbatim>\<open>create_block_vnet\<close> succeeds, the first prefix of the new network
  that lies within the block's range shares no address with any clipped prefix of any
  network already attached to the block. Further prefixes of the new network are not
  checked.
\<close>

theorem C9_first_prefix_disjoint:
  assumes "fst (create_block_vnet lower space_nm block_nm new_vnet vnet_list is_admin st) = Inr attached"
    and "cosmos_query_space lower space_nm st = target_space # others"
    and "find (\<lambda>x. lower (block_name x) = lower block_nm) (blocks target_space) = Some target_block"
    and "find (\<lambda>x. lower (vi_id x) = lower (vnet_id new_vnet)) vnet_list = Some target_vnet"
    and "list_all wf_net (prefixes target_vnet)"
    and "list_all wf_net (concat (map (clipped_prefixes lower vnet_list target_block) (vnets target_block)))"
  shows "\<exists>target_cidr.
           find (\<lambda>x. network_in x (block_cidr target_block)) (prefixes target_vnet) = Some target_cidr
           \<and> (\<forall>v\<in>set (vnets target_block). \<forall>p\<in>set (clipped_prefixes lower vnet_list target_block v).
                 addrs target_cidr \<inter> addrs p = {})
           \<and> vnets attached = vnets target_block @ [new_vnet\<lparr>active := True\<rparr>]"
proof -
  let ?existing = "concat (map (clipped_prefixes lower vnet_list target_block) (vnets target_block))"
  from assms(1,2,3,4) obtain target_cidr where
    tc: "find (\<lambda>x. network_in x (block_cidr target_block)) (prefixes target_vnet) = Some target_cidr"
    and no: "\<not> ipset_bool (ipset_and (IPSet ?existing) (IPSet [target_cidr]))"
    and at: "attached = target_block\<lparr>vnets := vnets target_block @ [new_vnet\<lparr>active := True\<rparr>]\<rparr>"
    by (auto simp: create_block_vnet_def Let_def split: if_splits option.splits)
  have "target_cidr \<in> set (prefixes target_vnet)"
    using tc by (auto simp: find_Some_iff)
  then have wft: "wf_net target_cidr"
    using assms(5) by (simp add: list_all_iff)
  have "ipset_addrs (ipset_and (IPSet ?existing) (IPSet [target_cidr])) = {}"
    using no by (rule not_ipset_bool_addrs)
  then have "(\<Union>n\<in>set ?existing. addrs n) \<inter> addrs target_cidr = {}"
    using assms(6) wft by (simp add: ipset_addrs_and ipset_addrs_IPSet)
  then have "\<forall>v\<in>set (vnets target_block). \<forall>p\<in>set (clipped_prefixes lower vnet_list target_block v).
                 addrs target_cidr \<inter> addrs p = {}"
    by auto
  with tc at show ?thesis by simp
qed

theorem C9_first_prefix_disjoint_witness:
  "fst (create_block_vnet ascii_lower ''prod'' ''b1'' \<lparr>vnet_id = ''v3'', active = False\<rparr> demo_directory True
         [demo_space [attached_block]])
     = Inr (attached_block\<lparr>vnets := [\<lparr>vnet_id = ''v1'', active = True\<rparr>,
                                       \<lparr>vnet_id = ''v3'', active = True\<rparr>]\<rparr>)
   \<and> addrs (IPNetwork (ip 10 0 0 128) 25) \<inter> addrs (IPNetwork (ip 10 0 0 64) 26) = {}"
proof -
  let ?v3 = "\<lparr>vnet_id = ''v3'', active = False\<rparr>"
  let ?i3 = "\<lparr>vi_id = ''v3'', prefixes = [IPNetwork (ip 10 0 0 128) 25]\<rparr>"
  have run: "fst (create_block_vnet ascii_lower ''prod'' ''b1'' ?v3 demo_directory True [demo_space [attached_block]])
     = Inr (attached_block\<lparr>vnets := [\<lparr>vnet_id = ''v1'', active = True\<rparr>,
                                       \<lparr>vnet_id = ''v3'', active = True\<rparr>]\<rparr>)"
    by (simp add: create_block_vnet_def clipped_prefixes_def cosmos_query_space_def
        cosmos_replace_def ipset_bool_def attached_block_def demo_directory_def
        demo_eval lower_eval netaddr_eval)
  have q: "cosmos_query_space ascii_lower ''prod'' [demo_space [attached_block]] = demo_space [attached_block] # []"
    by (simp add: cosmos_query_space_def demo_eval lower_eval)
  have f: "find (\<lambda>x. ascii_lower (block_name x) = ascii_lower ''b1'') (blocks (demo_space [attached_block]))
             = Some attached_block"
    by (simp add: attached_block_def demo_eval lower_eval)
  have t: "find (\<lambda>x. ascii_lower (vi_id x) = ascii_lower (vnet_id ?v3)) demo_directory = Some ?i3"
    by (simp add: demo_directory_def lower_eval)
  have w: "list_all wf_net (prefixes ?i3)"
    by (simp add: wf_net_def ip_def)
  have c: "concat (map (clipped_prefixes ascii_lower demo_directory attached_block) (vnets attached_block))
             = [IPNetwork (ip 10 0 0 64) 26]"
    by (simp add: clipped_prefixes_def attached_block_def demo_directory_def demo_eval
        lower_eval network_in_def ip_def)
  have wc: "list_all wf_net
              (concat (map (clipped_prefixes ascii_lower demo_directory attached_block) (vnets attached_block)))"
    unfolding c by (simp add: wf_net_def ip_def)
  have tc: "find (\<lambda>x. network_in x (block_cidr attached_block)) (prefixes ?i3)
              = Some (IPNetwork (ip 10 0 0 128) 25)"
    by (simp add: attached_block_def demo_eval network_in_def ip_def)
  have v: "vnets attached_block = [\<lparr>vnet_id = ''v1'', active = True\<rparr>]"
    by (simp add: attached_block_def demo_eval)
  have cp: "clipped_prefixes ascii_lower demo_directory attached_block \<lparr>vnet_id = ''v1'', active = True\<rparr>
              = [IPNetwork (ip 10 0 0 64) 26]"
    using c by (simp add: v)
  from C9_first_prefix_disjoint [OF run q f t w wc]
  have "addrs (IPNetwork (ip 10 0 0 128) 25) \<inter> addrs (IPNetwork (ip 10 0 0 64) 26) = {}"
    unfolding tc v by (simp add: cp)
  with run show ?thesis by blast
qed

text \<open>
  C10 (deleting a block under a name that differs in case). The claim as written fails: the
  requested name can equal one stored block's name up to case only and another stored
  block's name exactly. Here the space holds \<open>b1\<close> and \<open>B1\<close> (\<^verbatim>\<open>create_block\<close> compares no
  names) and the request names \<open>B1\<close>: the lookup of line 764 finds \<open>b1\<close>, whose name differs
  from the request in case, the exact comparison of line 773 finds the index of \<open>B1\<close>, and
  the request succeeds and removes \<open>B1\<close>.
\<close>

theorem C10_exact_sibling_counterexample:
  "ascii_lower (block_name (demo_block [])) = ascii_lower ''B1''
   \<and> block_name (demo_block []) \<noteq> ''B1''
   \<and> find (\<lambda>x. ascii_lower (block_name x) = ascii_lower ''B1'')
        (blocks (demo_space [demo_block [], demo_block2 \<lparr>block_name := ''B1''\<rparr>]))
      = Some (demo_block [])
   \<and> delete_block ascii_lower ''prod'' ''B1'' False True
        [demo_space [demo_block [], demo_block2 \<lparr>block_name := ''B1''\<rparr>]]
      = (Inr (), [demo_space [demo_block []]])"
  by (simp add: delete_block_def cosmos_query_space_def cosmos_replace_def del_at_def demo_eval
      demo_block2_def lower_eval)

text \<open>
  C10 as amended. When the requested name equals a stored block's name up to case (the
  lookup of line 764 finds a block) and no block of the space carries exactly the requested
  name, \<^verbatim>\<open>delete_block\<close> removes nothing and never succeeds. An admin request that passes
  the emptiness check reaches line 773, where the exact comparison finds no index, and
  \<^verbatim>\<open>del target_space['blocks'][None]\<close> raises TypeError; the request is neither answered
  with the 400 of an unknown block nor carried out.
\<close>

theorem C10_delete_block_case_mismatch:
  assumes "cosmos_query_space lower space_nm st = target_space # others"
    and "find (\<lambda>x. lower (block_name x) = lower block_nm) (blocks target_space) = Some target_block"
    and "\<forall>b\<in>set (blocks target_space). block_name b \<noteq> block_nm"
  shows "delete_block lower space_nm block_nm force is_admin st =
           (Inl (if \<not> is_admin then HTTPException 403 ''This API is admin restricted.''
                 else if \<not> force \<and> (vnets target_block \<noteq> [] \<or> resv target_block \<noteq> [])
                 then HTTPException 400 ''Cannot delete block while it contains vNets or reservations.''
                 else TypeError), st)"
proof -
  have "index_of (\<lambda>item. block_name item = block_nm) (blocks target_space) = None"
    using assms(3) by (simp add: index_of_None)
  then show ?thesis
    using assms(1,2) by (simp add: delete_block_def)
qed

theorem C10_delete_block_case_mismatch_witness:
  "ascii_lower ''B1'' = ascii_lower ''b1'' \<and> ''B1'' \<noteq> ''b1''
   \<and> delete_block ascii_lower ''prod'' ''B1'' False True [demo_space [demo_block []]]
       = (Inl TypeError, [demo_space [demo_block []]])
   \<and> delete_block ascii_lower ''prod'' ''B1'' True True
         [demo_space [demo_block [demo_resv ''A'' (IPNetwork (ip 10 0 0 0) 26) ''u'']]]
       = (Inl TypeError, [demo_space [demo_block [demo_resv ''A'' (IPNetwork (ip 10 0 0 0) 26) ''u'']]])"
proof -
  let ?rs = "[demo_resv ''A'' (IPNetwork (ip 10 0 0 0) 26) ''u'']"
  have l: "ascii_lower ''B1'' = ascii_lower ''b1'' \<and> ''B1'' \<noteq> ''b1''"
    by (simp add: lower_eval)
  have q: "cosmos_query_space ascii_lower ''prod'' [demo_space [demo_block rs]] = demo_space [demo_block rs] # []" for rs
    by (simp add: cosmos_query_space_def demo_eval lower_eval)
  have f: "find (\<lambda>x. ascii_lower (block_name x) = ascii_lower ''B1'') (blocks (demo_space [demo_block rs]))
             = Some (demo_block rs)" for rs
    by (simp add: demo_eval lower_eval)
  have n: "\<forall>b\<in>set (blocks (demo_space [demo_block rs])). block_name b \<noteq> ''B1''" for rs
    by (simp add: demo_eval)
  have v: "vnets (demo_block rs) = []" "resv (demo_block rs) = rs" for rs
    by (simp_all add: demo_eval)
  show ?thesis
    using C10_delete_block_case_mismatch [OF q [of "[]"] f [of "[]"] n [of "[]"], of False True]
          C10_delete_block_case_mismatch [OF q [of ?rs] f [of ?rs] n [of ?rs], of True True] l
    by (simp add: v)
qed

end
